(* ===== verification/Kernel_Prelude.thy ===== *)
theory Kernel_Prelude
  imports "HOL-Library.Word" "HOL-Library.Monad_Syntax"
begin

text \<open>
  What every component shares: kernel pointers and the error values that travel in them,
  the error numbers, file modes and mount flags as machine words, and the lemma collections.

  A kernel pointer is the integer the C pointer holds. \<open>NULL\<close> is 0, objects live at positive
  addresses, and an error travels as the negative number \<^verbatim>\<open>ERR_PTR\<close> casts to a pointer
  (\<^verbatim>\<open>include/linux/err.h\<close>). A state function returns \<open>None\<close> when the C code would oops: it
  dereferences a pointer to no live object, runs into \<^verbatim>\<open>BUG()\<close>, takes a lock it already
  holds, or never returns.
\<close>

unbundle bit_operations_syntax

named_theorems effects \<open>what an operation does on a state that meets its precondition\<close>
named_theorems frames \<open>what an operation leaves alone\<close>

type_synonym ptr = int

abbreviation (input) NULL :: ptr where
  "NULL \<equiv> 0"

section \<open>Error numbers\<close>

text \<open>From \<^verbatim>\<open>include/asm-generic/errno-base.h\<close> and \<^verbatim>\<open>include/asm-generic/errno.h\<close>.\<close>

definition EPERM :: int where [simp]: "EPERM = 1"
definition ENOENT :: int where [simp]: "ENOENT = 2"
definition EAGAIN :: int where [simp]: "EAGAIN = 11"
definition ENOMEM :: int where [simp]: "ENOMEM = 12"
definition EACCES :: int where [simp]: "EACCES = 13"
definition EFAULT :: int where [simp]: "EFAULT = 14"
definition EBUSY :: int where [simp]: "EBUSY = 16"
definition EEXIST :: int where [simp]: "EEXIST = 17"
definition ENODEV :: int where [simp]: "ENODEV = 19"
definition ENOTDIR :: int where [simp]: "ENOTDIR = 20"
definition EISDIR :: int where [simp]: "EISDIR = 21"
definition EINVAL :: int where [simp]: "EINVAL = 22"
definition EMFILE :: int where [simp]: "EMFILE = 24"
definition EROFS :: int where [simp]: "EROFS = 30"
definition ENAMETOOLONG :: int where [simp]: "ENAMETOOLONG = 36"
definition ENOTEMPTY :: int where [simp]: "ENOTEMPTY = 39"

section \<open>Errors in pointers\<close>

text \<open>
  \<^verbatim>\<open>ERR_PTR\<close> and \<^verbatim>\<open>PTR_ERR\<close> are casts. \<^verbatim>\<open>IS_ERR\<close> compares the pointer, read as an
  unsigned long, with \<^verbatim>\<open>(unsigned long)-1000L\<close>; on the integers a 64-bit long can hold that
  is the range below.
\<close>

definition ERR_PTR :: "int \<Rightarrow> ptr" where [simp]:
  "ERR_PTR err = err"

definition PTR_ERR :: "ptr \<Rightarrow> int" where [simp]:
  "PTR_ERR p = p"

definition IS_ERR :: "ptr \<Rightarrow> bool" where
  "IS_ERR p \<longleftrightarrow> - 1000 < p \<and> p < 0"

definition IS_ERR_VALUE :: "64 word \<Rightarrow> bool" where
  "IS_ERR_VALUE x \<longleftrightarrow> x > word_of_int (- 1000)"

lemma IS_ERR_pos [simp]: "0 \<le> p \<Longrightarrow> \<not> IS_ERR p"
  by (simp add: IS_ERR_def)

lemma uint_neg_long:
  assumes "- (2 ^ 63) \<le> p" and "p < 0"
  shows "uint (word_of_int p :: 64 word) = p + 2 ^ 64"
proof -
  have "(p + 2 ^ 64) mod 2 ^ 64 = p + 2 ^ 64"
    using assms by (intro mod_pos_pos_trivial) simp_all
  then show ?thesis by (simp add: unsigned_of_int take_bit_eq_mod)
qed

lemma uint_nonneg_long:
  assumes "0 \<le> p" and "p < 2 ^ 63"
  shows "uint (word_of_int p :: 64 word) = p"
  using assms by (simp add: unsigned_of_int take_bit_eq_mod mod_pos_pos_trivial)

lemma IS_ERR_word:
  assumes "- (2 ^ 63) \<le> p" and "p < 2 ^ 63"
  shows "IS_ERR_VALUE (word_of_int p) \<longleftrightarrow> IS_ERR p"
proof (cases "p < 0")
  case True
  with assms have "uint (word_of_int p :: 64 word) = p + 2 ^ 64"
    by (intro uint_neg_long)
  moreover have "uint (word_of_int (- 1000) :: 64 word) = - 1000 + 2 ^ 64"
    by (intro uint_neg_long) simp_all
  ultimately show ?thesis using True
    by (auto simp: IS_ERR_VALUE_def IS_ERR_def word_less_def)
next
  case False
  with assms have "uint (word_of_int p :: 64 word) = p"
    by (intro uint_nonneg_long) simp_all
  moreover have "uint (word_of_int (- 1000) :: 64 word) = - 1000 + 2 ^ 64"
    by (intro uint_neg_long) simp_all
  ultimately show ?thesis using False assms(2)
    by (simp add: IS_ERR_VALUE_def IS_ERR_def word_less_def)
qed

section \<open>Generic lemmas\<close>

text \<open>
  A bind is simplified in its first argument only, so that a chain of steps is worked off from
  the front.
\<close>

lemma bind_weak_cong [cong]: "x = y \<Longrightarrow> Option.bind x f = Option.bind y f"
  by simp

lemma and_part: 
  fixes x :: "'a::len word"
  assumes "x AND m = 0" and "m AND k = k"
  shows "x AND k = 0"
proof -
  have "x AND k = (x AND m) AND k" using assms(2) by (simp add: and.assoc)
  with assms(1) show ?thesis by simp
qed

lemma map_filter_same: "(\<And>x. x \<in> set xs \<Longrightarrow> f x = g x \<and> P x = Q x) \<Longrightarrow> map f (filter P xs) = map g (filter Q xs)"
  by (induction xs) auto

end
