(* ===== verification/Kernel_State.thy ===== *)
theory Kernel_State
  imports Kernel_Prelude
begin

text \<open>
  The data the file-system layer works on: the mode, flag and state bits, the structs of
  \<^verbatim>\<open>include/linux/fs.h\<close>, \<^verbatim>\<open>include/linux/dcache.h\<close> and \<^verbatim>\<open>include/linux/mount.h\<close> as
  records, the operation tables as enumerations of the tables that occur, and the state common
  to every component: memory, the current task, the clock and the spinlocks held.

  The machine is a 64-bit one. A struct keeps the fields that some modelled function reads or
  writes. A \<^verbatim>\<open>list_head\<close> or \<^verbatim>\<open>hlist_head\<close> that anchors a list is the HOL list of its
  entries, in the order of the list; the node that links an object into such a list is its
  membership there (\<open>List_Head\<close> shows that the pointer lists behave so). The security hooks
  are those of a kernel without \<^verbatim>\<open>CONFIG_SECURITY\<close>, which always allow; \<^verbatim>\<open>CONFIG_QUOTA\<close>,
  \<^verbatim>\<open>CONFIG_INOTIFY\<close> and \<^verbatim>\<open>CONFIG_DNOTIFY\<close> are off; \<^verbatim>\<open>printk\<close> and
  \<^verbatim>\<open>dump_stack\<close> write only the log and are left out.
\<close>

section \<open>Modes, flags and states\<close>

text \<open>\<^verbatim>\<open>include/linux/stat.h\<close>. The constants are used at \<^verbatim>\<open>int\<close> and at \<^verbatim>\<open>umode_t\<close> width.\<close>

definition S_IFMT :: "'a::len word" where [simp]: "S_IFMT = 0xF000"
definition S_IFSOCK :: "'a::len word" where [simp]: "S_IFSOCK = 0xC000"
definition S_IFLNK :: "'a::len word" where [simp]: "S_IFLNK = 0xA000"
definition S_IFREG :: "'a::len word" where [simp]: "S_IFREG = 0x8000"
definition S_IFBLK :: "'a::len word" where [simp]: "S_IFBLK = 0x6000"
definition S_IFDIR :: "'a::len word" where [simp]: "S_IFDIR = 0x4000"
definition S_IFCHR :: "'a::len word" where [simp]: "S_IFCHR = 0x2000"
definition S_IFIFO :: "'a::len word" where [simp]: "S_IFIFO = 0x1000"
definition S_ISVTX :: "'a::len word" where [simp]: "S_ISVTX = 0x200"
definition S_IRWXU :: "'a::len word" where [simp]: "S_IRWXU = 0x1C0"
definition S_IRUSR :: "'a::len word" where [simp]: "S_IRUSR = 0x100"
definition S_IWUSR :: "'a::len word" where [simp]: "S_IWUSR = 0x80"
definition S_IRWXG :: "'a::len word" where [simp]: "S_IRWXG = 0x38"
definition S_IRUGO :: "'a::len word" where [simp]: "S_IRUGO = 0x124"
definition S_IXUGO :: "'a::len word" where [simp]: "S_IXUGO = 0x49"

definition S_ISREG :: "'a::len word \<Rightarrow> bool" where "S_ISREG m \<longleftrightarrow> m AND S_IFMT = S_IFREG"
definition S_ISDIR :: "'a::len word \<Rightarrow> bool" where "S_ISDIR m \<longleftrightarrow> m AND S_IFMT = S_IFDIR"
definition S_ISLNK :: "'a::len word \<Rightarrow> bool" where "S_ISLNK m \<longleftrightarrow> m AND S_IFMT = S_IFLNK"
definition S_ISCHR :: "'a::len word \<Rightarrow> bool" where "S_ISCHR m \<longleftrightarrow> m AND S_IFMT = S_IFCHR"
definition S_ISBLK :: "'a::len word \<Rightarrow> bool" where "S_ISBLK m \<longleftrightarrow> m AND S_IFMT = S_IFBLK"
definition S_ISFIFO :: "'a::len word \<Rightarrow> bool" where "S_ISFIFO m \<longleftrightarrow> m AND S_IFMT = S_IFIFO"
definition S_ISSOCK :: "'a::len word \<Rightarrow> bool" where "S_ISSOCK m \<longleftrightarrow> m AND S_IFMT = S_IFSOCK"

text \<open>\<^verbatim>\<open>include/linux/fs.h\<close>: superblock flags, inode flags, inode state bits.\<close>

definition MS_RDONLY :: "64 word" where [simp]: "MS_RDONLY = 1"
definition MS_SYNCHRONOUS :: "64 word" where [simp]: "MS_SYNCHRONOUS = 16"
definition MS_MANDLOCK :: "64 word" where [simp]: "MS_MANDLOCK = 64"
definition MS_DIRSYNC :: "64 word" where [simp]: "MS_DIRSYNC = 128"
definition MS_NOATIME :: "64 word" where [simp]: "MS_NOATIME = 1024"
definition MS_NODIRATIME :: "64 word" where [simp]: "MS_NODIRATIME = 2048"
definition MS_VERBOSE :: "64 word" where [simp]: "MS_VERBOSE = 32768"
definition MS_POSIXACL :: "64 word" where [simp]: "MS_POSIXACL = 0x10000"
definition MS_ACTIVE :: "64 word" where [simp]: "MS_ACTIVE = 0x40000000"
definition MS_RMT_MASK :: "64 word" where [simp]:
  "MS_RMT_MASK = MS_RDONLY OR MS_SYNCHRONOUS OR MS_MANDLOCK OR MS_NOATIME OR MS_NODIRATIME"

definition S_SYNC :: "32 word" where [simp]: "S_SYNC = 1"
definition S_NOATIME :: "32 word" where [simp]: "S_NOATIME = 2"
definition S_APPEND :: "32 word" where [simp]: "S_APPEND = 4"
definition S_IMMUTABLE :: "32 word" where [simp]: "S_IMMUTABLE = 8"
definition S_DEAD :: "32 word" where [simp]: "S_DEAD = 16"
definition S_DIRSYNC :: "32 word" where [simp]: "S_DIRSYNC = 64"
definition S_NOCMTIME :: "32 word" where [simp]: "S_NOCMTIME = 128"

definition I_DIRTY_SYNC :: "64 word" where [simp]: "I_DIRTY_SYNC = 1"
definition I_DIRTY_DATASYNC :: "64 word" where [simp]: "I_DIRTY_DATASYNC = 2"
definition I_DIRTY_PAGES :: "64 word" where [simp]: "I_DIRTY_PAGES = 4"
definition I_LOCK :: "64 word" where [simp]: "I_LOCK = 8"
definition I_FREEING :: "64 word" where [simp]: "I_FREEING = 16"
definition I_CLEAR :: "64 word" where [simp]: "I_CLEAR = 32"
definition I_NEW :: "64 word" where [simp]: "I_NEW = 64"
definition I_WILL_FREE :: "64 word" where [simp]: "I_WILL_FREE = 128"
definition I_DIRTY :: "64 word" where [simp]:
  "I_DIRTY = I_DIRTY_SYNC OR I_DIRTY_DATASYNC OR I_DIRTY_PAGES"

text \<open>\<^verbatim>\<open>include/linux/dcache.h\<close>, \<^verbatim>\<open>include/linux/limits.h\<close> and \<^verbatim>\<open>include/linux/fs.h\<close>.\<close>

definition DCACHE_NFSFS_RENAMED :: "32 word" where [simp]: "DCACHE_NFSFS_RENAMED = 2"
definition DCACHE_DISCONNECTED :: "32 word" where [simp]: "DCACHE_DISCONNECTED = 4"
definition DCACHE_REFERENCED :: "32 word" where [simp]: "DCACHE_REFERENCED = 8"
definition DCACHE_UNHASHED :: "32 word" where [simp]: "DCACHE_UNHASHED = 16"

definition NAME_MAX :: nat where [simp]: "NAME_MAX = 255"
definition DNAME_INLINE_LEN :: nat where [simp]: "DNAME_INLINE_LEN = 36"
definition S_BIAS :: int where [simp]: "S_BIAS = 2 ^ 30"
definition PAGE_CACHE_SIZE :: "64 word" where [simp]: "PAGE_CACHE_SIZE = 4096"
definition PAGE_CACHE_SHIFT :: nat where [simp]: "PAGE_CACHE_SHIFT = 12"

section \<open>Operation tables\<close>

text \<open>
  A pointer to an operation table is the name of the table. The tables that occur are those of
  the files modelled; \<open>Other_fops\<close> stands for a table of another module, by its address.
\<close>

datatype dentry_operations = No_dops | Simple_dentry_operations

datatype inode_operations = Empty_iops | Simple_dir_inode_operations

datatype file_operations =
    Empty_fops | Simple_dir_operations | Aufs_file_operations
  | Def_chr_fops | Def_blk_fops | Def_fifo_fops | Bad_sock_fops | Other_fops ptr

datatype super_operations = Default_op | Simple_s_ops | Ramfs_ops

section \<open>Objects\<close>

type_synonym timespec = "int \<times> int"

record qstr =
  q_hash :: "32 word"
  q_len :: nat
  q_name :: string

record dentry =
  d_count :: int
  d_flags :: "32 word"
  d_inode :: ptr
  d_parent :: ptr
  d_name :: qstr
  d_subdirs :: "ptr list"
  d_op :: dentry_operations
  d_sb :: ptr
  d_fsdata :: ptr
  d_mounted :: int
  d_iname :: string
  d_external :: bool

record inode =
  i_dentry :: "ptr list"
  i_ino :: "64 word"
  i_count :: int
  i_mode :: "16 word"
  i_nlink :: "32 word"
  i_uid :: "32 word"
  i_gid :: "32 word"
  i_rdev :: "32 word"
  i_size :: int
  i_atime :: timespec
  i_mtime :: timespec
  i_ctime :: timespec
  i_blkbits :: nat
  i_blksize :: "64 word"
  i_blocks :: "64 word"
  i_bytes :: "16 word"
  i_sem :: bool
  i_op :: inode_operations
  i_fop :: file_operations
  i_sb :: ptr
  i_nrpages :: nat
  i_generation :: "32 word"
  i_hashed :: bool
  i_state :: "64 word"
  i_flags :: "32 word"
  i_writecount :: int
  i_private :: ptr

datatype rwsem = Free | Readers nat | Writer

record super_block =
  s_dev :: "32 word"
  s_blocksize :: "64 word"
  s_blocksize_bits :: nat
  s_dirt :: bool
  s_maxbytes :: "64 word"
  s_type :: ptr
  s_op :: super_operations
  s_flags :: "64 word"
  s_magic :: "64 word"
  s_root :: ptr
  s_umount :: rwsem
  s_lock :: bool
  s_count :: int
  s_active :: int
  s_inodes :: "ptr list"
  s_dirty :: "ptr list"
  s_io :: "ptr list"
  s_anon :: "ptr list"
  s_files :: "ptr list"
  s_bdev :: ptr
  s_id :: string
  s_time_gran :: "32 word"

section \<open>The state every component uses\<close>

text \<open>
  Memory hands out the addresses in order; \<open>mem_ok\<close> says which requests are met, so a theorem
  about all states covers every pattern of allocation failures. \<open>held\<close> is the set of spinlocks
  the running code holds. The code is modelled as one thread, so taking a held spinlock is a
  deadlock, and \<^verbatim>\<open>might_sleep()\<close> refuses to run under one.
\<close>

datatype lock =
    Dcache_lock | D_lock ptr | Inode_lock | I_lock ptr | Sb_lock | File_systems_lock
  | Vfsmount_lock | Pin_fs_lock | Unnamed_dev_lock | Files_lock | Fs_lock

record kcore =
  next_addr :: ptr
  mem_ok :: "ptr \<Rightarrow> bool"
  held :: "lock set"
  cur_time :: timespec
  cur_fsuid :: "32 word"
  cur_fsgid :: "32 word"
  cur_groups :: "(32 word) list"
  cur_caps :: "nat set"

type_synonym ('a, 's) step = "'s \<Rightarrow> ('a \<times> 's) option"

definition spin_lock :: "lock \<Rightarrow> 'a kcore_scheme \<Rightarrow> 'a kcore_scheme option" where
  "spin_lock l s = (if l \<in> held s then None else Some (s\<lparr>held := insert l (held s)\<rparr>))"

definition spin_unlock :: "lock \<Rightarrow> 'a kcore_scheme \<Rightarrow> 'a kcore_scheme option" where
  "spin_unlock l s = (if l \<in> held s then Some (s\<lparr>held := held s - {l}\<rparr>) else None)"

definition might_sleep :: "'a kcore_scheme \<Rightarrow> 'a kcore_scheme option" where
  "might_sleep s = (if held s = {} then Some s else None)"

text \<open>An allocation that may sleep (\<^verbatim>\<open>GFP_KERNEL\<close>), and one that may not (\<^verbatim>\<open>GFP_ATOMIC\<close>).\<close>

definition kalloc_atomic :: "'a kcore_scheme \<Rightarrow> ptr \<times> 'a kcore_scheme" where
  "kalloc_atomic s =
     (if mem_ok s (next_addr s) then (next_addr s, s\<lparr>next_addr := next_addr s + 1\<rparr>)
      else (NULL, s\<lparr>next_addr := next_addr s + 1\<rparr>))"

definition kalloc :: "'a kcore_scheme \<Rightarrow> (ptr \<times> 'a kcore_scheme) option" where
  "kalloc s = do { s \<leftarrow> might_sleep s; Some (kalloc_atomic s) }"

lemma spin_lock_upd [simp]: "l \<notin> held s \<Longrightarrow> spin_lock l s = Some (held_update (insert l) s)"
  by (simp add: spin_lock_def)

lemma spin_unlock_upd [simp]: "l \<in> held s \<Longrightarrow> spin_unlock l s = Some (held_update (\<lambda>H. H - {l}) s)"
  by (simp add: spin_unlock_def)

text \<open>To compute which locks are held after a lock has been dropped.\<close>

lemmas lock_simps = o_def insert_Diff_if

lemma might_sleep_Some [simp]: "held s = {} \<Longrightarrow> might_sleep s = Some s"
  by (simp add: might_sleep_def)

lemma kalloc_ok [simp]:
  "held s = {} \<Longrightarrow> mem_ok s (next_addr s) \<Longrightarrow>
     kalloc s = Some (next_addr s, s\<lparr>next_addr := next_addr s + 1\<rparr>)"
  by (simp add: kalloc_def kalloc_atomic_def)

lemma kalloc_fail [simp]:
  "held s = {} \<Longrightarrow> \<not> mem_ok s (next_addr s) \<Longrightarrow>
     kalloc s = Some (NULL, s\<lparr>next_addr := next_addr s + 1\<rparr>)"
  by (simp add: kalloc_def kalloc_atomic_def)

lemma held_idem: "f (held s) = held s \<Longrightarrow> held_update f s = s"
  by simp

end
