(* ===== verification/Icache.thy ===== *)
theory Icache
  imports Kernel_State
begin

text \<open>
  The inode cache, \<^verbatim>\<open>fs/inode.c\<close>, with the part of \<^verbatim>\<open>fs/fs-writeback.c\<close> it calls. The
  state adds the heaps of superblocks and inodes, the in-use and unused lists, the hash table
  and the statistics. The page cache is not modelled beyond the page count of an inode: pages
  are clean and writing them back does nothing.

  \<open>inode_slab\<close> is what the slab object at an address holds when it is handed out. The slab
  constructor and the rules for returning an object fix its lists and semaphore, and nothing
  else: a field that neither \<^verbatim>\<open>alloc_inode\<close> nor its caller sets keeps what was there.
\<close>

section \<open>State\<close>

record icache = kcore +
  supers :: "ptr \<rightharpoonup> super_block"
  inodes :: "ptr \<rightharpoonup> inode"
  inode_slab :: "ptr \<Rightarrow> inode"
  inode_in_use :: "ptr list"
  inode_unused :: "ptr list"
  inode_hashtable :: "nat \<Rightarrow> ptr list"
  i_hash_shift :: nat
  i_hash_mask :: "64 word"
  nr_inodes :: int
  nr_unused_inodes :: int
  last_ino :: "64 word"
  iunique_counter :: "64 word"
  cap_writeback_dirty :: bool

definition upd_inode :: "ptr \<Rightarrow> (inode \<Rightarrow> inode) \<Rightarrow> 'a icache_scheme \<Rightarrow> 'a icache_scheme option" where
  "upd_inode p f s = do { i \<leftarrow> inodes s p; Some (s\<lparr>inodes := (inodes s)(p \<mapsto> f i)\<rparr>) }"

definition upd_super ::
  "ptr \<Rightarrow> (super_block \<Rightarrow> super_block) \<Rightarrow> 'a icache_scheme \<Rightarrow> 'a icache_scheme option" where
  "upd_super p f s = do { b \<leftarrow> supers s p; Some (s\<lparr>supers := (supers s)(p \<mapsto> f b)\<rparr>) }"

text \<open>
  \<open>list_del_init\<close> on \<open>i_list\<close> takes the inode off the list it is on, which is one of the in-use
  list, the unused list and the two dirty lists of its superblock; on \<open>i_sb_list\<close>, off the list of
  all inodes of its superblock; \<open>hlist_del_init\<close> takes it off its hash chain.
\<close>

definition i_list_del :: "ptr \<Rightarrow> 'a icache_scheme \<Rightarrow> 'a icache_scheme option" where
  "i_list_del p s = do {
     i \<leftarrow> inodes s p;
     s \<leftarrow> upd_super (i_sb i) (\<lambda>b. b\<lparr>s_dirty := removeAll p (s_dirty b), s_io := removeAll p (s_io b)\<rparr>) s;
     Some (s\<lparr>inode_in_use := removeAll p (inode_in_use s),
             inode_unused := removeAll p (inode_unused s)\<rparr>) }"

definition i_sb_list_del :: "ptr \<Rightarrow> 'a icache_scheme \<Rightarrow> 'a icache_scheme option" where
  "i_sb_list_del p s = do {
     i \<leftarrow> inodes s p;
     upd_super (i_sb i) (\<lambda>b. b\<lparr>s_inodes := removeAll p (s_inodes b)\<rparr>) s }"

definition i_hash_del :: "ptr \<Rightarrow> 'a icache_scheme \<Rightarrow> 'a icache_scheme option" where
  "i_hash_del p s = do {
     s \<leftarrow> upd_inode p (\<lambda>i. i\<lparr>i_hashed := False\<rparr>) s;
     Some (s\<lparr>inode_hashtable := (\<lambda>b. removeAll p (inode_hashtable s b))\<rparr>) }"

definition i_hash_add :: "ptr \<Rightarrow> nat \<Rightarrow> 'a icache_scheme \<Rightarrow> 'a icache_scheme option" where
  "i_hash_add p b s = do {
     s \<leftarrow> upd_inode p (\<lambda>i. i\<lparr>i_hashed := True\<rparr>) s;
     Some (s\<lparr>inode_hashtable := (inode_hashtable s)(b := p # inode_hashtable s b)\<rparr>) }"

section \<open>Allocation and destruction\<close>

definition alloc_inode :: "ptr \<Rightarrow> 'a icache_scheme \<Rightarrow> (ptr \<times> 'a icache_scheme) option" where
  "alloc_inode sb s = do {
     b \<leftarrow> supers s sb;
     (inode, s) \<leftarrow> kalloc s;
     if inode \<noteq> NULL then
       Some (inode, s\<lparr>inodes := (inodes s)(inode \<mapsto> (inode_slab s inode)\<lparr>
         i_dentry := [], i_hashed := False, i_sem := False, i_nrpages := 0,
         i_sb := sb,
         i_blkbits := s_blocksize_bits b,
         i_flags := 0,
         i_count := 1,
         i_op := Empty_iops,
         i_fop := Empty_fops,
         i_nlink := 1,
         i_writecount := 0,
         i_size := 0,
         i_blocks := 0,
         i_bytes := 0,
         i_generation := 0,
         i_rdev := 0,
         i_private := NULL\<rparr>)\<rparr>)
     else Some (NULL, s) }"

definition destroy_inode :: "ptr \<Rightarrow> 'a icache_scheme \<Rightarrow> 'a icache_scheme option" where
  "destroy_inode inode s = do {
     i \<leftarrow> inodes s inode;
     Some (s\<lparr>inodes := (inodes s)(inode := None)\<rparr>) }"

definition iget_locked_ref :: "ptr \<Rightarrow> 'a icache_scheme \<Rightarrow> 'a icache_scheme option" where
  "iget_locked_ref inode s = do {
     i \<leftarrow> inodes s inode;
     if i_count i \<noteq> 0 then upd_inode inode (\<lambda>i. i\<lparr>i_count := i_count i + 1\<rparr>) s
     else do {
       s \<leftarrow> upd_inode inode (\<lambda>i. i\<lparr>i_count := i_count i + 1\<rparr>) s;
       s \<leftarrow> (if i_state i AND (I_DIRTY OR I_LOCK) = 0
             then do { s \<leftarrow> i_list_del inode s; Some (s\<lparr>inode_in_use := inode # inode_in_use s\<rparr>) }
             else Some s);
       Some (s\<lparr>nr_unused_inodes := nr_unused_inodes s - 1\<rparr>) } }"

text \<open>
  Waiting for a lock bit: the code is one thread, so a bit that is set stays set and the wait
  never ends.
\<close>

definition wait_on_inode :: "ptr \<Rightarrow> 'a icache_scheme \<Rightarrow> 'a icache_scheme option" where
  "wait_on_inode inode s = do {
     s \<leftarrow> might_sleep s;
     i \<leftarrow> inodes s inode;
     if i_state i AND I_LOCK \<noteq> 0 then None else Some s }"

definition clear_inode :: "ptr \<Rightarrow> 'a icache_scheme \<Rightarrow> 'a icache_scheme option" where
  "clear_inode inode s = do {
     s \<leftarrow> might_sleep s;
     i \<leftarrow> inodes s inode;
     if i_nrpages i \<noteq> 0 then None
     else if i_state i AND I_FREEING = 0 then None
     else if i_state i AND I_CLEAR \<noteq> 0 then None
     else do {
       s \<leftarrow> wait_on_inode inode s;
       upd_inode inode (\<lambda>i. i\<lparr>i_state := I_CLEAR\<rparr>) s } }"

definition truncate_inode_pages :: "ptr \<Rightarrow> 'a icache_scheme \<Rightarrow> 'a icache_scheme option" where
  "truncate_inode_pages inode s = upd_inode inode (\<lambda>i. i\<lparr>i_nrpages := 0\<rparr>) s"

fun dispose_all :: "ptr list \<Rightarrow> 'a icache_scheme \<Rightarrow> 'a icache_scheme option" where
  "dispose_all [] s = Some s"
| "dispose_all (inode # head) s = do {
     i \<leftarrow> inodes s inode;
     s \<leftarrow> (if i_nrpages i \<noteq> 0 then truncate_inode_pages inode s else Some s);
     s \<leftarrow> clear_inode inode s;
     s \<leftarrow> spin_lock Inode_lock s;
     s \<leftarrow> i_hash_del inode s;
     s \<leftarrow> i_sb_list_del inode s;
     s \<leftarrow> spin_unlock Inode_lock s;
     s \<leftarrow> destroy_inode inode s;
     dispose_all head s }"

definition dispose_list :: "ptr list \<Rightarrow> 'a icache_scheme \<Rightarrow> 'a icache_scheme option" where
  "dispose_list head s = do {
     s \<leftarrow> dispose_all head s;
     s \<leftarrow> spin_lock Inode_lock s;
     spin_unlock Inode_lock (s\<lparr>nr_inodes := nr_inodes s - int (length head)\<rparr>) }"

fun invalidate_each ::
  "ptr list \<Rightarrow> ptr list \<Rightarrow> bool \<Rightarrow> int \<Rightarrow> 'a icache_scheme
     \<Rightarrow> ((ptr list \<times> bool \<times> int) \<times> 'a icache_scheme) option" where
  "invalidate_each [] dispose busy count s = Some ((dispose, busy, count), s)"
| "invalidate_each (inode # nxt) dispose busy count s = do {
     i \<leftarrow> inodes s inode;
     if i_count i = 0 then do {
       s \<leftarrow> i_list_del inode s;
       s \<leftarrow> upd_inode inode (\<lambda>i. i\<lparr>i_state := i_state i OR I_FREEING\<rparr>) s;
       invalidate_each nxt (inode # dispose) busy (count + 1) s }
     else invalidate_each nxt dispose True count s }"

definition invalidate_list ::
  "ptr list \<Rightarrow> 'a icache_scheme \<Rightarrow> ((ptr list \<times> bool) \<times> 'a icache_scheme) option" where
  "invalidate_list head s = do {
     ((dispose, busy, count), s) \<leftarrow> invalidate_each head [] False 0 s;
     Some ((dispose, busy), s\<lparr>nr_unused_inodes := nr_unused_inodes s - count\<rparr>) }"

definition invalidate_inodes :: "ptr \<Rightarrow> 'a icache_scheme \<Rightarrow> (bool \<times> 'a icache_scheme) option" where
  "invalidate_inodes sb s = do {
     s \<leftarrow> might_sleep s;
     s \<leftarrow> spin_lock Inode_lock s;
     b \<leftarrow> supers s sb;
     ((throw_away, busy), s) \<leftarrow> invalidate_list (s_inodes b) s;
     s \<leftarrow> spin_unlock Inode_lock s;
     s \<leftarrow> dispose_list throw_away s;
     Some (busy, s) }"

definition can_unuse :: "ptr \<Rightarrow> 'a icache_scheme \<Rightarrow> bool option" where
  "can_unuse inode s = do {
     i \<leftarrow> inodes s inode;
     Some (i_state i = 0 \<and> i_count i = 0 \<and> i_nrpages i = 0) }"

definition new_inode :: "ptr \<Rightarrow> 'a icache_scheme \<Rightarrow> (ptr \<times> 'a icache_scheme) option" where
  "new_inode sb s = do {
     (inode, s) \<leftarrow> alloc_inode sb s;
     if inode \<noteq> NULL then do {
       s \<leftarrow> spin_lock Inode_lock s;
       let s = s\<lparr>nr_inodes := nr_inodes s + 1, inode_in_use := inode # inode_in_use s,
                 last_ino := last_ino s + 1\<rparr> in do {
       s \<leftarrow> upd_super sb (\<lambda>b. b\<lparr>s_inodes := inode # s_inodes b\<rparr>) s;
       s \<leftarrow> upd_inode inode (\<lambda>i. i\<lparr>i_ino := last_ino s, i_state := 0\<rparr>) s;
       s \<leftarrow> spin_unlock Inode_lock s;
       Some (inode, s) } }
     else Some (NULL, s) }"


section \<open>The hash table\<close>

text \<open>
  A search that meets an inode on its way out waits for it to go. Nothing else runs, so it
  would wait for ever.
\<close>

fun find_inode :: "ptr \<Rightarrow> ptr list \<Rightarrow> (inode \<Rightarrow> bool) \<Rightarrow> 'a icache_scheme \<Rightarrow> ptr option" where
  "find_inode sb [] test s = Some NULL"
| "find_inode sb (inode # node) test s = do {
     i \<leftarrow> inodes s inode;
     if i_sb i \<noteq> sb then find_inode sb node test s
     else if \<not> test i then find_inode sb node test s
     else if i_state i AND (I_FREEING OR I_CLEAR OR I_WILL_FREE) \<noteq> 0 then None
     else Some inode }"

fun find_inode_fast :: "ptr \<Rightarrow> ptr list \<Rightarrow> 64 word \<Rightarrow> 'a icache_scheme \<Rightarrow> ptr option" where
  "find_inode_fast sb [] ino s = Some NULL"
| "find_inode_fast sb (inode # node) ino s = do {
     i \<leftarrow> inodes s inode;
     if i_ino i \<noteq> ino then find_inode_fast sb node ino s
     else if i_sb i \<noteq> sb then find_inode_fast sb node ino s
     else if i_state i AND (I_FREEING OR I_CLEAR OR I_WILL_FREE) \<noteq> 0 then None
     else Some inode }"

definition unlock_new_inode :: "ptr \<Rightarrow> 'a icache_scheme \<Rightarrow> 'a icache_scheme option" where
  "unlock_new_inode inode s =
     upd_inode inode (\<lambda>i. i\<lparr>i_state := i_state i AND NOT (I_LOCK OR I_NEW)\<rparr>) s"

text \<open>What \<^verbatim>\<open>get_new_inode\<close> and its fast version do with an inode nobody else has hashed.\<close>

definition add_new_inode :: "ptr \<Rightarrow> nat \<Rightarrow> ptr \<Rightarrow> 'a icache_scheme \<Rightarrow> 'a icache_scheme option" where
  "add_new_inode sb head inode s =
    (let s = s\<lparr>nr_inodes := nr_inodes s + 1, inode_in_use := inode # inode_in_use s\<rparr> in do {
     s \<leftarrow> upd_super sb (\<lambda>b. b\<lparr>s_inodes := inode # s_inodes b\<rparr>) s;
     s \<leftarrow> i_hash_add inode head s;
     upd_inode inode (\<lambda>i. i\<lparr>i_state := I_LOCK OR I_NEW\<rparr>) s })"

definition get_new_inode ::
  "ptr \<Rightarrow> nat \<Rightarrow> (inode \<Rightarrow> bool) \<Rightarrow> (inode \<Rightarrow> int \<times> inode) \<Rightarrow> 'a icache_scheme
     \<Rightarrow> (ptr \<times> 'a icache_scheme) option" where
  "get_new_inode sb head test set' s = do {
     (inode, s) \<leftarrow> alloc_inode sb s;
     if inode = NULL then Some (NULL, s)
     else do {
       s \<leftarrow> spin_lock Inode_lock s;
       old \<leftarrow> find_inode sb (inode_hashtable s head) test s;
       if old = NULL then do {
         i \<leftarrow> inodes s inode;
         let (r, i) = set' i;
             s = s\<lparr>inodes := (inodes s)(inode \<mapsto> i)\<rparr> in
         if r \<noteq> 0 then do {
           s \<leftarrow> spin_unlock Inode_lock s;
           s \<leftarrow> destroy_inode inode s;
           Some (NULL, s) }
         else do {
           s \<leftarrow> add_new_inode sb head inode s;
           s \<leftarrow> spin_unlock Inode_lock s;
           Some (inode, s) } }
       else do {
         s \<leftarrow> iget_locked_ref old s;
         s \<leftarrow> spin_unlock Inode_lock s;
         s \<leftarrow> destroy_inode inode s;
         s \<leftarrow> wait_on_inode old s;
         Some (old, s) } } }"

definition get_new_inode_fast ::
  "ptr \<Rightarrow> nat \<Rightarrow> 64 word \<Rightarrow> 'a icache_scheme \<Rightarrow> (ptr \<times> 'a icache_scheme) option" where
  "get_new_inode_fast sb head ino s = do {
     (inode, s) \<leftarrow> alloc_inode sb s;
     if inode = NULL then Some (NULL, s)
     else do {
       s \<leftarrow> spin_lock Inode_lock s;
       old \<leftarrow> find_inode_fast sb (inode_hashtable s head) ino s;
       if old = NULL then do {
         s \<leftarrow> upd_inode inode (\<lambda>i. i\<lparr>i_ino := ino\<rparr>) s;
         s \<leftarrow> add_new_inode sb head inode s;
         s \<leftarrow> spin_unlock Inode_lock s;
         Some (inode, s) }
       else do {
         s \<leftarrow> iget_locked_ref old s;
         s \<leftarrow> spin_unlock Inode_lock s;
         s \<leftarrow> destroy_inode inode s;
         s \<leftarrow> wait_on_inode old s;
         Some (old, s) } } }"

definition GOLDEN_RATIO_PRIME :: "64 word" where
  "GOLDEN_RATIO_PRIME = 0x9e37fffffffc0001"

definition L1_CACHE_BYTES :: "64 word" where
  "L1_CACHE_BYTES = 64"

definition i_hash :: "ptr \<Rightarrow> 64 word \<Rightarrow> 'a icache_scheme \<Rightarrow> nat" where
  "i_hash sb hashval s =
     (let tmp = (hashval * word_of_int sb) XOR ((GOLDEN_RATIO_PRIME + hashval) div L1_CACHE_BYTES);
          tmp = tmp XOR drop_bit (i_hash_shift s) (tmp XOR GOLDEN_RATIO_PRIME)
      in unat (tmp AND i_hash_mask s))"

text \<open>The retry loop of \<^verbatim>\<open>iunique\<close>; it ends once the counter meets a number no inode has.\<close>

partial_function (option) iunique_retry ::
  "ptr \<Rightarrow> 64 word \<Rightarrow> 'a icache_scheme \<Rightarrow> (64 word \<times> 'a icache_scheme) option" where
  "iunique_retry sb max_reserved s =
     (if iunique_counter s > max_reserved then
        let res = iunique_counter s;
            s = s\<lparr>iunique_counter := res + 1\<rparr>
        in Option.bind (find_inode_fast sb (inode_hashtable s (i_hash sb res s)) res s) (\<lambda>inode.
             if inode = NULL then Option.bind (spin_unlock Inode_lock s) (\<lambda>s. Some (res, s))
             else iunique_retry sb max_reserved s)
      else iunique_retry sb max_reserved (s\<lparr>iunique_counter := max_reserved + 1\<rparr>))"

declare iunique_retry.simps [code]

definition iunique ::
  "ptr \<Rightarrow> 64 word \<Rightarrow> 'a icache_scheme \<Rightarrow> (64 word \<times> 'a icache_scheme) option" where
  "iunique sb max_reserved s = do {
     s \<leftarrow> spin_lock Inode_lock s;
     iunique_retry sb max_reserved s }"

definition igrab :: "ptr \<Rightarrow> 'a icache_scheme \<Rightarrow> (ptr \<times> 'a icache_scheme) option" where
  "igrab inode s = do {
     s \<leftarrow> spin_lock Inode_lock s;
     i \<leftarrow> inodes s inode;
     if i_state i AND (I_FREEING OR I_WILL_FREE) = 0 then do {
       s \<leftarrow> iget_locked_ref inode s;
       s \<leftarrow> spin_unlock Inode_lock s;
       Some (inode, s) }
     else do {
       s \<leftarrow> spin_unlock Inode_lock s;
       Some (NULL, s) } }"

definition ifind ::
  "ptr \<Rightarrow> nat \<Rightarrow> (inode \<Rightarrow> bool) \<Rightarrow> bool \<Rightarrow> 'a icache_scheme \<Rightarrow> (ptr \<times> 'a icache_scheme) option" where
  "ifind sb head test wait s = do {
     s \<leftarrow> spin_lock Inode_lock s;
     inode \<leftarrow> find_inode sb (inode_hashtable s head) test s;
     if inode \<noteq> NULL then do {
       s \<leftarrow> iget_locked_ref inode s;
       s \<leftarrow> spin_unlock Inode_lock s;
       s \<leftarrow> (if wait then wait_on_inode inode s else Some s);
       Some (inode, s) }
     else do {
       s \<leftarrow> spin_unlock Inode_lock s;
       Some (NULL, s) } }"

definition ifind_fast ::
  "ptr \<Rightarrow> nat \<Rightarrow> 64 word \<Rightarrow> 'a icache_scheme \<Rightarrow> (ptr \<times> 'a icache_scheme) option" where
  "ifind_fast sb head ino s = do {
     s \<leftarrow> spin_lock Inode_lock s;
     inode \<leftarrow> find_inode_fast sb (inode_hashtable s head) ino s;
     if inode \<noteq> NULL then do {
       s \<leftarrow> iget_locked_ref inode s;
       s \<leftarrow> spin_unlock Inode_lock s;
       s \<leftarrow> wait_on_inode inode s;
       Some (inode, s) }
     else do {
       s \<leftarrow> spin_unlock Inode_lock s;
       Some (NULL, s) } }"

definition ilookup5_nowait ::
  "ptr \<Rightarrow> 64 word \<Rightarrow> (inode \<Rightarrow> bool) \<Rightarrow> 'a icache_scheme \<Rightarrow> (ptr \<times> 'a icache_scheme) option" where
  "ilookup5_nowait sb hashval test s = ifind sb (i_hash sb hashval s) test False s"

definition ilookup5 ::
  "ptr \<Rightarrow> 64 word \<Rightarrow> (inode \<Rightarrow> bool) \<Rightarrow> 'a icache_scheme \<Rightarrow> (ptr \<times> 'a icache_scheme) option" where
  "ilookup5 sb hashval test s = ifind sb (i_hash sb hashval s) test True s"

definition ilookup :: "ptr \<Rightarrow> 64 word \<Rightarrow> 'a icache_scheme \<Rightarrow> (ptr \<times> 'a icache_scheme) option" where
  "ilookup sb ino s = ifind_fast sb (i_hash sb ino s) ino s"

definition iget5_locked ::
  "ptr \<Rightarrow> 64 word \<Rightarrow> (inode \<Rightarrow> bool) \<Rightarrow> (inode \<Rightarrow> int \<times> inode) \<Rightarrow> 'a icache_scheme
     \<Rightarrow> (ptr \<times> 'a icache_scheme) option" where
  "iget5_locked sb hashval test set' s = do {
     (inode, s) \<leftarrow> ifind sb (i_hash sb hashval s) test True s;
     if inode \<noteq> NULL then Some (inode, s)
     else get_new_inode sb (i_hash sb hashval s) test set' s }"

definition iget_locked :: "ptr \<Rightarrow> 64 word \<Rightarrow> 'a icache_scheme \<Rightarrow> (ptr \<times> 'a icache_scheme) option" where
  "iget_locked sb ino s = do {
     (inode, s) \<leftarrow> ifind_fast sb (i_hash sb ino s) ino s;
     if inode \<noteq> NULL then Some (inode, s)
     else get_new_inode_fast sb (i_hash sb ino s) ino s }"

definition insert_inode_hash_val :: "ptr \<Rightarrow> 64 word \<Rightarrow> 'a icache_scheme \<Rightarrow> 'a icache_scheme option" where
  "insert_inode_hash_val inode hashval s = do {
     i \<leftarrow> inodes s inode;
     s \<leftarrow> spin_lock Inode_lock s;
     s \<leftarrow> i_hash_add inode (i_hash (i_sb i) hashval s) s;
     spin_unlock Inode_lock s }"

definition remove_inode_hash :: "ptr \<Rightarrow> 'a icache_scheme \<Rightarrow> 'a icache_scheme option" where
  "remove_inode_hash inode s = do {
     s \<leftarrow> spin_lock Inode_lock s;
     s \<leftarrow> i_hash_del inode s;
     spin_unlock Inode_lock s }"


section \<open>Writing an inode back\<close>

text \<open>
  \<^verbatim>\<open>fs/fs-writeback.c\<close>. None of the operation tables has \<^verbatim>\<open>dirty_inode\<close> or
  \<^verbatim>\<open>write_inode\<close>, and with no dirty pages \<^verbatim>\<open>do_writepages\<close> and \<^verbatim>\<open>filemap_fdatawait\<close>
  return 0.
\<close>

datatype writeback_sync_modes = WB_SYNC_NONE | WB_SYNC_ALL | WB_SYNC_HOLD

definition list_move_dirty :: "ptr \<Rightarrow> 'a icache_scheme \<Rightarrow> 'a icache_scheme option" where
  "list_move_dirty inode s = do {
     i \<leftarrow> inodes s inode;
     s \<leftarrow> i_list_del inode s;
     upd_super (i_sb i) (\<lambda>b. b\<lparr>s_dirty := inode # s_dirty b\<rparr>) s }"

definition mark_inode_dirty_flags :: "ptr \<Rightarrow> 64 word \<Rightarrow> 'a icache_scheme \<Rightarrow> 'a icache_scheme option" where
  "mark_inode_dirty_flags inode flags s = do {
     i \<leftarrow> inodes s inode;
     b \<leftarrow> supers s (i_sb i);
     if i_state i AND flags = flags then Some s
     else do {
       s \<leftarrow> spin_lock Inode_lock s;
       let was_dirty = i_state i AND I_DIRTY \<noteq> 0 in do {
       s \<leftarrow> upd_inode inode (\<lambda>i. i\<lparr>i_state := i_state i OR flags\<rparr>) s;
       i \<leftarrow> inodes s inode;
       s \<leftarrow> (if i_state i AND I_LOCK \<noteq> 0 then Some s
             else if \<not> S_ISBLK (i_mode i) \<and> \<not> i_hashed i then Some s
             else if i_state i AND (I_FREEING OR I_CLEAR) \<noteq> 0 then Some s
             else if \<not> was_dirty then list_move_dirty inode s
             else Some s);
       spin_unlock Inode_lock s } } }"

definition mark_inode_dirty :: "ptr \<Rightarrow> 'a icache_scheme \<Rightarrow> 'a icache_scheme option" where
  "mark_inode_dirty inode s = mark_inode_dirty_flags inode I_DIRTY s"

definition mark_inode_dirty_sync :: "ptr \<Rightarrow> 'a icache_scheme \<Rightarrow> 'a icache_scheme option" where
  "mark_inode_dirty_sync inode s = mark_inode_dirty_flags inode I_DIRTY_SYNC s"

definition sync_single_inode :: "ptr \<Rightarrow> 'a icache_scheme \<Rightarrow> (int \<times> 'a icache_scheme) option" where
  "sync_single_inode inode s = do {
     i \<leftarrow> inodes s inode;
     if i_state i AND I_LOCK \<noteq> 0 then None
     else do {
       s \<leftarrow> upd_inode inode (\<lambda>i. i\<lparr>i_state := (i_state i OR I_LOCK) AND NOT I_DIRTY\<rparr>) s;
       s \<leftarrow> spin_unlock Inode_lock s;
       s \<leftarrow> spin_lock Inode_lock s;
       s \<leftarrow> upd_inode inode (\<lambda>i. i\<lparr>i_state := i_state i AND NOT I_LOCK\<rparr>) s;
       i \<leftarrow> inodes s inode;
       s \<leftarrow> (if i_state i AND I_FREEING \<noteq> 0 then Some s
             else if i_state i AND I_DIRTY \<noteq> 0 then list_move_dirty inode s
             else if i_count i \<noteq> 0 then do {
               s \<leftarrow> i_list_del inode s;
               Some (s\<lparr>inode_in_use := inode # inode_in_use s\<rparr>) }
             else do {
               s \<leftarrow> i_list_del inode s;
               Some (s\<lparr>inode_unused := inode # inode_unused s,
                       nr_unused_inodes := nr_unused_inodes s + 1\<rparr>) });
       Some (0, s) } }"

definition writeback_single_inode ::
  "ptr \<Rightarrow> writeback_sync_modes \<Rightarrow> 'a icache_scheme \<Rightarrow> (int \<times> 'a icache_scheme) option" where
  "writeback_single_inode inode sync_mode s = do {
     i \<leftarrow> inodes s inode;
     if sync_mode \<noteq> WB_SYNC_ALL \<and> i_state i AND I_LOCK \<noteq> 0 then do {
       s \<leftarrow> list_move_dirty inode s;
       Some (0, s) }
     else if i_state i AND I_LOCK \<noteq> 0 then None
     else sync_single_inode inode s }"

definition write_inode_now :: "ptr \<Rightarrow> bool \<Rightarrow> 'a icache_scheme \<Rightarrow> (int \<times> 'a icache_scheme) option" where
  "write_inode_now inode sync s = do {
     i \<leftarrow> inodes s inode;
     if \<not> cap_writeback_dirty s then Some (0, s)
     else do {
       s \<leftarrow> might_sleep s;
       s \<leftarrow> spin_lock Inode_lock s;
       (ret, s) \<leftarrow> writeback_single_inode inode WB_SYNC_ALL s;
       s \<leftarrow> spin_unlock Inode_lock s;
       s \<leftarrow> (if sync then wait_on_inode inode s else Some s);
       Some (ret, s) } }"

section \<open>Dropping the last reference\<close>

definition generic_delete_inode :: "ptr \<Rightarrow> 'a icache_scheme \<Rightarrow> 'a icache_scheme option" where
  "generic_delete_inode inode s = do {
     s \<leftarrow> i_list_del inode s;
     s \<leftarrow> i_sb_list_del inode s;
     s \<leftarrow> upd_inode inode (\<lambda>i. i\<lparr>i_state := i_state i OR I_FREEING\<rparr>) s;
     s \<leftarrow> spin_unlock Inode_lock (s\<lparr>nr_inodes := nr_inodes s - 1\<rparr>);
     s \<leftarrow> truncate_inode_pages inode s;
     s \<leftarrow> clear_inode inode s;
     s \<leftarrow> spin_lock Inode_lock s;
     s \<leftarrow> i_hash_del inode s;
     s \<leftarrow> spin_unlock Inode_lock s;
     i \<leftarrow> inodes s inode;
     if i_state i \<noteq> I_CLEAR then None
     else destroy_inode inode s }"

text \<open>The second half of \<^verbatim>\<open>generic_forget_inode\<close>: the inode is taken off its lists and freed.\<close>

definition forget_unhashed :: "ptr \<Rightarrow> 'a icache_scheme \<Rightarrow> 'a icache_scheme option" where
  "forget_unhashed inode s = do {
     s \<leftarrow> i_list_del inode s;
     s \<leftarrow> i_sb_list_del inode s;
     s \<leftarrow> upd_inode inode (\<lambda>i. i\<lparr>i_state := i_state i OR I_FREEING\<rparr>) s;
     s \<leftarrow> spin_unlock Inode_lock (s\<lparr>nr_inodes := nr_inodes s - 1\<rparr>);
     i \<leftarrow> inodes s inode;
     s \<leftarrow> (if i_nrpages i \<noteq> 0 then truncate_inode_pages inode s else Some s);
     s \<leftarrow> clear_inode inode s;
     destroy_inode inode s }"

definition generic_forget_inode :: "ptr \<Rightarrow> 'a icache_scheme \<Rightarrow> 'a icache_scheme option" where
  "generic_forget_inode inode s = do {
     i \<leftarrow> inodes s inode;
     if i_hashed i then do {
       s \<leftarrow> (if i_state i AND (I_DIRTY OR I_LOCK) = 0
             then do { s \<leftarrow> i_list_del inode s; Some (s\<lparr>inode_unused := inode # inode_unused s\<rparr>) }
             else Some s);
       let s = s\<lparr>nr_unused_inodes := nr_unused_inodes s + 1\<rparr> in do {
       b \<leftarrow> supers s (i_sb i);
       if s_flags b AND MS_ACTIVE \<noteq> 0 then spin_unlock Inode_lock s
       else do {
         s \<leftarrow> upd_inode inode (\<lambda>i. i\<lparr>i_state := i_state i OR I_WILL_FREE\<rparr>) s;
         s \<leftarrow> spin_unlock Inode_lock s;
         (r, s) \<leftarrow> write_inode_now inode True s;
         s \<leftarrow> spin_lock Inode_lock s;
         s \<leftarrow> upd_inode inode (\<lambda>i. i\<lparr>i_state := i_state i AND NOT I_WILL_FREE\<rparr>) s;
         s \<leftarrow> i_hash_del inode (s\<lparr>nr_unused_inodes := nr_unused_inodes s - 1\<rparr>);
         forget_unhashed inode s } } }
     else forget_unhashed inode s }"

definition generic_drop_inode :: "ptr \<Rightarrow> 'a icache_scheme \<Rightarrow> 'a icache_scheme option" where
  "generic_drop_inode inode s = do {
     i \<leftarrow> inodes s inode;
     if i_nlink i = 0 then generic_delete_inode inode s else generic_forget_inode inode s }"

text \<open>Of the tables, only that of ramfs has a \<^verbatim>\<open>drop_inode\<close>, and none has \<^verbatim>\<open>put_inode\<close>.\<close>

definition iput_final :: "ptr \<Rightarrow> 'a icache_scheme \<Rightarrow> 'a icache_scheme option" where
  "iput_final inode s = do {
     i \<leftarrow> inodes s inode;
     b \<leftarrow> supers s (i_sb i);
     if s_op b = Ramfs_ops then generic_delete_inode inode s else generic_drop_inode inode s }"

definition iput :: "ptr \<Rightarrow> 'a icache_scheme \<Rightarrow> 'a icache_scheme option" where
  "iput inode s =
     (if inode = NULL then Some s
      else do {
        i \<leftarrow> inodes s inode;
        b \<leftarrow> supers s (i_sb i);
        if i_state i = I_CLEAR then None
        else if i_count i \<noteq> 1 then upd_inode inode (\<lambda>i. i\<lparr>i_count := i_count i - 1\<rparr>) s
        else do {
          s \<leftarrow> spin_lock Inode_lock s;
          s \<leftarrow> upd_inode inode (\<lambda>i. i\<lparr>i_count := i_count i - 1\<rparr>) s;
          iput_final inode s } })"

section \<open>Writing a superblock's inodes back\<close>

text \<open>
  The loop of \<^verbatim>\<open>sync_sb_inodes\<close>, for the control block that \<^verbatim>\<open>sync_inodes_sb\<close> sets up: no
  queue is selected, nothing is non-blocking, and no page gets written, so
  \<^verbatim>\<open>nr_to_write\<close> does not change.
\<close>

partial_function (option) sync_sb_loop ::
  "ptr \<Rightarrow> writeback_sync_modes \<Rightarrow> int \<Rightarrow> 'a icache_scheme \<Rightarrow> 'a icache_scheme option" where
  "sync_sb_loop sb sync_mode nr_to_write s =
     Option.bind (supers s sb) (\<lambda>b.
     if s_io b = [] then Some s
     else
       let inode = last (s_io b) in
       if \<not> cap_writeback_dirty s then list_move_dirty inode s
       else
         Option.bind (inodes s inode) (\<lambda>i.
         if i_state i AND I_FREEING \<noteq> 0 then None
         else
           Option.bind (iget_locked_ref inode s) (\<lambda>s.
           Option.bind (writeback_single_inode inode sync_mode s) (\<lambda>(r, s).
           Option.bind (if sync_mode = WB_SYNC_HOLD then list_move_dirty inode s else Some s) (\<lambda>s.
           Option.bind (spin_unlock Inode_lock s) (\<lambda>s.
           Option.bind (iput inode s) (\<lambda>s.
           Option.bind (spin_lock Inode_lock s) (\<lambda>s.
           if nr_to_write \<le> 0 then Some s else sync_sb_loop sb sync_mode nr_to_write s))))))))"

declare sync_sb_loop.simps [code]

definition sync_sb_inodes ::
  "ptr \<Rightarrow> writeback_sync_modes \<Rightarrow> int \<Rightarrow> 'a icache_scheme \<Rightarrow> 'a icache_scheme option" where
  "sync_sb_inodes sb sync_mode nr_to_write s = do {
     s \<leftarrow> upd_super sb (\<lambda>b. b\<lparr>s_dirty := [], s_io := s_dirty b @ s_io b\<rparr>) s;
     sync_sb_loop sb sync_mode nr_to_write s }"

definition sync_inodes_sb :: "ptr \<Rightarrow> bool \<Rightarrow> 'a icache_scheme \<Rightarrow> 'a icache_scheme option" where
  "sync_inodes_sb sb wait s =
    (let n = nr_inodes s - nr_unused_inodes s in do {
     s \<leftarrow> spin_lock Inode_lock s;
     s \<leftarrow> sync_sb_inodes sb (if wait then WB_SYNC_ALL else WB_SYNC_HOLD) (n + n div 2) s;
     spin_unlock Inode_lock s })"

section \<open>Times and special inodes\<close>

definition jiffy_nsecs :: "32 word" where
  "jiffy_nsecs = 4000000"

definition timespec_trunc :: "timespec \<Rightarrow> 32 word \<Rightarrow> timespec" where
  "timespec_trunc t gran =
     (if gran \<le> jiffy_nsecs then t
      else if gran = 1000000000 then (fst t, 0)
      else (fst t, snd t - snd t mod uint gran))"

definition current_fs_time :: "ptr \<Rightarrow> 'a icache_scheme \<Rightarrow> timespec option" where
  "current_fs_time sb s = do {
     b \<leftarrow> supers s sb;
     Some (timespec_trunc (cur_time s) (s_time_gran b)) }"

definition update_atime :: "ptr \<Rightarrow> 'a icache_scheme \<Rightarrow> 'a icache_scheme option" where
  "update_atime inode s = do {
     i \<leftarrow> inodes s inode;
     b \<leftarrow> supers s (i_sb i);
     if s_flags b AND MS_NOATIME \<noteq> 0 \<or> i_flags i AND S_NOATIME \<noteq> 0 then Some s
     else if s_flags b AND MS_NODIRATIME \<noteq> 0 \<and> S_ISDIR (i_mode i) then Some s
     else if s_flags b AND MS_RDONLY \<noteq> 0 then Some s
     else do {
       now \<leftarrow> current_fs_time (i_sb i) s;
       if i_atime i \<noteq> now then do {
         s \<leftarrow> upd_inode inode (\<lambda>i. i\<lparr>i_atime := now\<rparr>) s;
         mark_inode_dirty_sync inode s }
       else Some s } }"

definition inode_update_time :: "ptr \<Rightarrow> bool \<Rightarrow> 'a icache_scheme \<Rightarrow> 'a icache_scheme option" where
  "inode_update_time inode ctime_too s = do {
     i \<leftarrow> inodes s inode;
     b \<leftarrow> supers s (i_sb i);
     if i_flags i AND S_NOCMTIME \<noteq> 0 then Some s
     else if s_flags b AND MS_RDONLY \<noteq> 0 then Some s
     else do {
       now \<leftarrow> current_fs_time (i_sb i) s;
       let sync_it = (i_mtime i \<noteq> now \<or> (ctime_too \<and> i_ctime i \<noteq> now)) in do {
       s \<leftarrow> upd_inode inode (\<lambda>i. if ctime_too then i\<lparr>i_mtime := now, i_ctime := now\<rparr>
                                 else i\<lparr>i_mtime := now\<rparr>) s;
       if sync_it then mark_inode_dirty_sync inode s else Some s } } }"

definition inode_needs_sync :: "ptr \<Rightarrow> 'a icache_scheme \<Rightarrow> bool option" where
  "inode_needs_sync inode s = do {
     i \<leftarrow> inodes s inode;
     b \<leftarrow> supers s (i_sb i);
     Some (s_flags b AND MS_SYNCHRONOUS \<noteq> 0 \<or> i_flags i AND S_SYNC \<noteq> 0 \<or>
           (S_ISDIR (i_mode i) \<and>
            (s_flags b AND (MS_SYNCHRONOUS OR MS_DIRSYNC) \<noteq> 0 \<or>
             i_flags i AND (S_SYNC OR S_DIRSYNC) \<noteq> 0))) }"

definition init_special_inode :: "ptr \<Rightarrow> 16 word \<Rightarrow> 32 word \<Rightarrow> 'a icache_scheme \<Rightarrow> 'a icache_scheme option" where
  "init_special_inode inode mode rdev s = upd_inode inode (\<lambda>i.
     let i = i\<lparr>i_mode := mode\<rparr> in
     if S_ISCHR mode then i\<lparr>i_fop := Def_chr_fops, i_rdev := rdev\<rparr>
     else if S_ISBLK mode then i\<lparr>i_fop := Def_blk_fops, i_rdev := rdev\<rparr>
     else if S_ISFIFO mode then i\<lparr>i_fop := Def_fifo_fops\<rparr>
     else if S_ISSOCK mode then i\<lparr>i_fop := Bad_sock_fops\<rparr>
     else i) s"

section \<open>Notions for the specification\<close>

text \<open>An inode in no transition: not locked, new or on its way out.\<close>

definition quiet :: "inode \<Rightarrow> bool" where
  "quiet i \<longleftrightarrow> i_state i AND (I_LOCK OR I_FREEING OR I_CLEAR OR I_NEW OR I_WILL_FREE) = 0"

text \<open>What \<open>new_inode\<close> makes of a slab object.\<close>

definition fresh_inode :: "ptr \<Rightarrow> super_block \<Rightarrow> 'a icache_scheme \<Rightarrow> inode" where
  "fresh_inode sb b s = (inode_slab s (next_addr s))\<lparr>
     i_dentry := [], i_hashed := False, i_sem := False, i_nrpages := 0, i_sb := sb,
     i_blkbits := s_blocksize_bits b, i_flags := 0, i_count := 1, i_op := Empty_iops,
     i_fop := Empty_fops, i_nlink := 1, i_writecount := 0, i_size := 0, i_blocks := 0,
     i_bytes := 0, i_generation := 0, i_rdev := 0, i_private := NULL,
     i_ino := last_ino s + 1, i_state := 0\<rparr>"

text \<open>The state after an inode has gone.\<close>

definition inode_gone :: "ptr \<Rightarrow> inode \<Rightarrow> super_block \<Rightarrow> 'a icache_scheme \<Rightarrow> 'a icache_scheme" where
  "inode_gone p i b s = s\<lparr>
     supers := (supers s)(i_sb i \<mapsto> b\<lparr>s_dirty := removeAll p (s_dirty b),
        s_io := removeAll p (s_io b), s_inodes := removeAll p (s_inodes b)\<rparr>),
     inodes := (inodes s)(p := None),
     inode_in_use := removeAll p (inode_in_use s),
     inode_unused := removeAll p (inode_unused s),
     nr_inodes := nr_inodes s - 1, held := {}\<rparr>"

text \<open>
  \<open>kept\<close>: an inode that stays in the cache when nobody uses it any more. \<open>sb_same\<close>: two
  states of a superblock that differ in its lists of inodes only.
\<close>

definition kept :: "inode \<Rightarrow> super_block \<Rightarrow> bool" where
  "kept i b \<longleftrightarrow> i_hashed i \<and> i_nlink i \<noteq> 0 \<and> s_op b \<noteq> Ramfs_ops \<and> s_flags b AND MS_ACTIVE \<noteq> 0"

definition sb_same :: "super_block \<Rightarrow> super_block \<Rightarrow> bool" where
  "sb_same b c \<longleftrightarrow> c = b\<lparr>s_inodes := s_inodes c, s_dirty := s_dirty c, s_io := s_io c\<rparr>"

definition sbs_same :: "(ptr \<rightharpoonup> super_block) \<Rightarrow> (ptr \<rightharpoonup> super_block) \<Rightarrow> bool" where
  "sbs_same m m' \<longleftrightarrow> (\<forall>q. rel_option sb_same (m q) (m' q))"

text \<open>\<open>icache_step\<close>: the second state differs from the first in the inode cache only.\<close>

definition icache_step :: "'a icache_scheme \<Rightarrow> 'a icache_scheme \<Rightarrow> bool" where
  "icache_step s s' \<longleftrightarrow> s' = s\<lparr>inodes := inodes s', supers := supers s',
     inode_in_use := inode_in_use s', inode_unused := inode_unused s', nr_inodes := nr_inodes s',
     nr_unused_inodes := nr_unused_inodes s', inode_hashtable := inode_hashtable s'\<rparr>"

subsection \<open>The invariant\<close>

definition inode_ok :: "'a icache_scheme \<Rightarrow> ptr \<Rightarrow> inode \<Rightarrow> bool" where
  "inode_ok s p i \<longleftrightarrow> 0 < p \<and> p < next_addr s \<and> quiet i \<and> 0 \<le> i_count i \<and>
     (\<exists>b. supers s (i_sb i) = Some b \<and> p \<in> set (s_inodes b)) \<and>
     (i_hashed i \<longleftrightarrow> (\<exists>h. p \<in> set (inode_hashtable s h)))"

definition super_ok :: "'a icache_scheme \<Rightarrow> ptr \<Rightarrow> super_block \<Rightarrow> bool" where
  "super_ok s q b \<longleftrightarrow> 0 < q \<and> q < next_addr s \<and> distinct (s_inodes b) \<and>
     (\<forall>p\<in>set (s_inodes b). \<exists>i. inodes s p = Some i \<and> i_sb i = q) \<and>
     set (s_dirty b) \<union> set (s_io b) \<subseteq> set (s_inodes b)"

definition icache_wf :: "'a icache_scheme \<Rightarrow> bool" where
  "icache_wf s \<longleftrightarrow> 0 < next_addr s \<and>
     (\<forall>p i. inodes s p = Some i \<longrightarrow> inode_ok s p i) \<and>
     (\<forall>q b. supers s q = Some b \<longrightarrow> super_ok s q b) \<and>
     set (inode_in_use s) \<union> set (inode_unused s) \<subseteq> dom (inodes s) \<and>
     (\<forall>h. set (inode_hashtable s h) \<subseteq> dom (inodes s))"


text \<open>No inode in the hash table has the number \<open>ino\<close> on the superblock.\<close>

definition ino_free :: "ptr \<Rightarrow> 64 word \<Rightarrow> 'a icache_scheme \<Rightarrow> bool" where
  "ino_free sb ino s \<longleftrightarrow>
     (\<forall>p\<in>set (inode_hashtable s (i_hash sb ino s)). \<forall>i. inodes s p = Some i \<longrightarrow> \<not> (i_ino i = ino \<and> i_sb i = sb))"

section \<open>Effects\<close>

lemma upd_inode_Some [simp]:
  "inodes s p = Some i \<Longrightarrow> upd_inode p f s = Some (inodes_update (\<lambda>m. m(p \<mapsto> f i)) s)"
  by (simp add: upd_inode_def)

lemma upd_super_Some [simp]:
  "supers s p = Some b \<Longrightarrow> upd_super p f s = Some (supers_update (\<lambda>m. m(p \<mapsto> f b)) s)"
  by (simp add: upd_super_def)

lemma quietD:
  assumes "quiet i"
  shows "i_state i AND 8 = 0" "i_state i AND 16 = 0" "i_state i AND 32 = 0" "i_state i AND 128 = 0"
    "i_state i AND 64 = 0" "i_state i AND 176 = 0" "i_state i AND 144 = 0" "i_state i \<noteq> 32"
proof -
  from assms have q: "i_state i AND 248 = 0" by (simp add: quiet_def)
  show "i_state i AND 8 = 0" "i_state i AND 16 = 0" "i_state i AND 32 = 0" "i_state i AND 128 = 0"
    "i_state i AND 64 = 0" "i_state i AND 176 = 0" "i_state i AND 144 = 0"
    by (rule and_part [OF q]; simp)+
  then show "i_state i \<noteq> 32" by auto
qed

lemma quiet_freeing:
  assumes "quiet i"
  shows "(i_state i OR 16) AND 16 \<noteq> 0" "(i_state i OR 16) AND 32 = 0" "(i_state i OR 16) AND 8 = 0"
  using quietD [OF assms] by (simp_all add: bit.conj_disj_distrib2)


lemma fresh_inode_simps [simp]:
  "i_dentry (fresh_inode sb b s) = []" "i_count (fresh_inode sb b s) = 1"
  "i_sb (fresh_inode sb b s) = sb" "i_state (fresh_inode sb b s) = 0"
  "\<not> i_hashed (fresh_inode sb b s)" "i_nlink (fresh_inode sb b s) = 1"
  "i_op (fresh_inode sb b s) = Empty_iops" "i_fop (fresh_inode sb b s) = Empty_fops"
  "\<not> i_sem (fresh_inode sb b s)" "i_ino (fresh_inode sb b s) = last_ino s + 1"
  "i_flags (fresh_inode sb b s) = 0" "i_private (fresh_inode sb b s) = 0"
  "i_ctime (fresh_inode sb b s) = i_ctime (inode_slab s (next_addr s))"
  "i_nrpages (fresh_inode sb b s) = 0" "quiet (fresh_inode sb b s)"
  by (simp_all add: fresh_inode_def quiet_def)

lemma alloc_inode_ok:
  assumes "held s = {}" and "mem_ok s (next_addr s)" and "next_addr s \<noteq> 0" and "supers s sb = Some b"
  shows "alloc_inode sb s = Some (next_addr s, inodes_update (\<lambda>m. m(next_addr s \<mapsto>
    (fresh_inode sb b s)\<lparr>i_ino := i_ino (inode_slab s (next_addr s)),
       i_state := i_state (inode_slab s (next_addr s))\<rparr>)) (next_addr_update (\<lambda>a. a + 1) s))"
  using assms by (simp add: alloc_inode_def fresh_inode_def)

lemma new_inode_ok [effects]:
  assumes "held s = {}" and "mem_ok s (next_addr s)" and "next_addr s \<noteq> 0" and "supers s sb = Some b"
  shows "new_inode sb s = Some (next_addr s,
    s\<lparr>next_addr := next_addr s + 1,
      supers := (supers s)(sb \<mapsto> b\<lparr>s_inodes := next_addr s # s_inodes b\<rparr>),
      inodes := (inodes s)(next_addr s \<mapsto> fresh_inode sb b s),
      inode_in_use := next_addr s # inode_in_use s,
      nr_inodes := nr_inodes s + 1, last_ino := last_ino s + 1\<rparr>)"
  using assms by (simp add: new_inode_def alloc_inode_ok fresh_inode_def)

lemma new_inode_fail [effects]:
  assumes "held s = {}" and "\<not> mem_ok s (next_addr s)" and "supers s sb = Some b"
  shows "new_inode sb s = Some (NULL, s\<lparr>next_addr := next_addr s + 1\<rparr>)"
  using assms by (simp add: new_inode_def alloc_inode_def)

lemma i_list_del_ok [simp]:
  assumes "inodes s p = Some i" and "supers s (i_sb i) = Some b"
  shows "i_list_del p s = Some (inode_unused_update (removeAll p) (inode_in_use_update (removeAll p)
    (supers_update (\<lambda>m. m(i_sb i \<mapsto> b\<lparr>s_dirty := removeAll p (s_dirty b), s_io := removeAll p (s_io b)\<rparr>)) s)))"
  using assms by (simp add: i_list_del_def)

lemma i_sb_list_del_ok [simp]:
  assumes "inodes s p = Some i" and "supers s (i_sb i) = Some b"
  shows "i_sb_list_del p s =
    Some (supers_update (\<lambda>m. m(i_sb i \<mapsto> b\<lparr>s_inodes := removeAll p (s_inodes b)\<rparr>)) s)"
  using assms by (simp add: i_sb_list_del_def)

lemma i_hash_del_ok [simp]:
  assumes "inodes s p = Some i"
  shows "i_hash_del p s = Some (inode_hashtable_update (\<lambda>t b. removeAll p (t b))
    (inodes_update (\<lambda>m. m(p \<mapsto> i\<lparr>i_hashed := False\<rparr>)) s))"
  using assms by (simp add: i_hash_del_def)

lemma clear_inode_ok [simp]:
  assumes "held s = {}" and "inodes s p = Some i" and "i_nrpages i = 0" and "i_state i AND 16 \<noteq> 0"
    and "i_state i AND 32 = 0" and "i_state i AND 8 = 0"
  shows "clear_inode p s = Some (inodes_update (\<lambda>m. m(p \<mapsto> i\<lparr>i_state := 32\<rparr>)) s)"
  using assms by (simp add: clear_inode_def wait_on_inode_def)

lemma destroy_inode_ok [simp]:
  "inodes s p = Some i \<Longrightarrow> destroy_inode p s = Some (inodes_update (\<lambda>m. m(p := None)) s)"
  by (simp add: destroy_inode_def)

lemma forget_unhashed_ok:
  assumes "inodes s p = Some i" and "supers s (i_sb i) = Some b" and "held s = {Inode_lock}" and "quiet i"
  shows "forget_unhashed p s = Some (inode_gone p i b s)"
  using assms(1-3)
  by (simp add: forget_unhashed_def truncate_inode_pages_def inode_gone_def quiet_freeing [OF assms(4)])

lemma generic_delete_inode_ok:
  assumes "inodes s p = Some i" and "supers s (i_sb i) = Some b" and "held s = {Inode_lock}" and "quiet i"
  shows "generic_delete_inode p s = Some ((inode_gone p i b s)
    \<lparr>inode_hashtable := (\<lambda>b. removeAll p (inode_hashtable s b))\<rparr>)"
  using assms(1-3)
  by (simp add: generic_delete_inode_def truncate_inode_pages_def inode_gone_def quiet_freeing [OF assms(4)])

lemma iput_NULL [simp]: "iput 0 s = Some s"
  by (simp add: iput_def)

lemma iput_shared [effects]:
  assumes "inodes s p = Some i" and "p \<noteq> 0" and "supers s (i_sb i) = Some b" and "quiet i" and "i_count i \<noteq> 1"
  shows "iput p s = Some (s\<lparr>inodes := (inodes s)(p \<mapsto> i\<lparr>i_count := i_count i - 1\<rparr>)\<rparr>)"
  using assms quietD(8) [OF assms(4)] by (simp add: iput_def)

lemma iput_forget [effects]:
  assumes "inodes s p = Some i" and "p \<noteq> 0" and "supers s (i_sb i) = Some b" and "quiet i" and "i_count i = 1"
    and "held s = {}" and "\<not> i_hashed i" and "i_nlink i \<noteq> 0" and "s_op b \<noteq> Ramfs_ops"
  shows "iput p s = Some (inode_gone p i b s)"
proof -
  let ?i = "i\<lparr>i_count := 0\<rparr>"
  let ?s = "inodes_update (\<lambda>m. m(p \<mapsto> ?i)) (held_update (insert Inode_lock) s)"
  have "forget_unhashed p ?s = Some (inode_gone p ?i b ?s)"
    by (rule forget_unhashed_ok) (use assms in \<open>simp_all add: quiet_def\<close>)
  moreover have "iput p s = forget_unhashed p ?s"
    using assms quietD(8) [OF assms(4)]
    by (simp add: iput_def iput_final_def generic_drop_inode_def generic_forget_inode_def)
  ultimately show ?thesis by (simp add: inode_gone_def)
qed

lemma iput_delete [effects]:
  assumes "inodes s p = Some i" and "p \<noteq> 0" and "supers s (i_sb i) = Some b" and "quiet i" and "i_count i = 1"
    and "held s = {}" and "i_nlink i = 0 \<or> s_op b = Ramfs_ops"
  shows "iput p s = Some ((inode_gone p i b s)
    \<lparr>inode_hashtable := (\<lambda>b. removeAll p (inode_hashtable s b))\<rparr>)"
proof -
  let ?i = "i\<lparr>i_count := 0\<rparr>"
  let ?s = "inodes_update (\<lambda>m. m(p \<mapsto> ?i)) (held_update (insert Inode_lock) s)"
  have "generic_delete_inode p ?s = Some ((inode_gone p ?i b ?s)
    \<lparr>inode_hashtable := (\<lambda>b. removeAll p (inode_hashtable ?s b))\<rparr>)"
    by (rule generic_delete_inode_ok) (use assms in \<open>simp_all add: quiet_def\<close>)
  moreover have "iput p s = generic_delete_inode p ?s"
    using assms quietD(8) [OF assms(4)]
    by (cases "i_nlink i = 0") (simp_all add: iput_def iput_final_def generic_drop_inode_def)
  ultimately show ?thesis by (simp add: inode_gone_def)
qed


lemma iput_cache [effects]:
  assumes "inodes s p = Some i" and "p \<noteq> 0" and "supers s (i_sb i) = Some b" and "quiet i" and "i_count i = 1"
    and "held s = {}" and "i_hashed i" and "i_nlink i \<noteq> 0" and "s_op b \<noteq> Ramfs_ops"
    and "s_flags b AND MS_ACTIVE \<noteq> 0"
  shows "iput p s = Some (if i_state i AND I_DIRTY = 0
    then s\<lparr>inodes := (inodes s)(p \<mapsto> i\<lparr>i_count := 0\<rparr>),
           supers := (supers s)(i_sb i \<mapsto> b\<lparr>s_dirty := removeAll p (s_dirty b), s_io := removeAll p (s_io b)\<rparr>),
           inode_in_use := removeAll p (inode_in_use s),
           inode_unused := p # removeAll p (inode_unused s),
           nr_unused_inodes := nr_unused_inodes s + 1, held := {}\<rparr>
    else s\<lparr>inodes := (inodes s)(p \<mapsto> i\<lparr>i_count := 0\<rparr>),
           nr_unused_inodes := nr_unused_inodes s + 1, held := {}\<rparr>)"
proof -
  have "i_state i AND 15 = (i_state i AND 7) OR (i_state i AND 8)"
    by (simp flip: bit.conj_disj_distrib)
  then have d: "i_state i AND 15 = i_state i AND 7"
    by (simp add: quietD(1) [OF assms(4)])
  show ?thesis
    using assms(1-3,5-7,9)
    by (simp add: iput_def iput_final_def generic_drop_inode_def generic_forget_inode_def
        quietD [OF assms(4)] assms(8) assms(10)[simplified] d Let_def)
qed


lemma sync_single_inode_ok:
  assumes "inodes s p = Some i" and "supers s (i_sb i) = Some b" and "Inode_lock \<in> held s"
    and "i_state i AND 8 = 0" and "i_state i AND 16 = 0" and "i_count i = 0"
  shows "sync_single_inode p s = Some (0,
    s\<lparr>inodes := (inodes s)(p \<mapsto> i\<lparr>i_state := (i_state i OR I_LOCK) AND NOT I_DIRTY AND NOT I_LOCK\<rparr>),
      supers := (supers s)(i_sb i \<mapsto> b\<lparr>s_dirty := removeAll p (s_dirty b), s_io := removeAll p (s_io b)\<rparr>),
      inode_in_use := removeAll p (inode_in_use s),
      inode_unused := p # removeAll p (inode_unused s),
      nr_unused_inodes := nr_unused_inodes s + 1, held := insert Inode_lock (held s)\<rparr>)"
proof -
  have a: "(x AND - 8) AND - 9 = x AND - 16" "(x AND - 16) AND 16 = x AND 16" "(x AND - 16) AND 7 = 0"
    for x :: "64 word" by (simp_all add: and.assoc)
  have b: "(i_state i OR 8) AND 16 = 0"
    by (simp add: bit.conj_disj_distrib2 assms)
  show ?thesis
    using assms(1-3,6)
    by (simp add: sync_single_inode_def a b assms(4))
qed

lemma write_inode_now_unused:
  assumes "inodes s p = Some i" and "supers s (i_sb i) = Some b" and "held s = {}"
    and "i_state i AND 8 = 0" and "i_state i AND 16 = 0" and "i_count i = 0"
  shows "write_inode_now p True s = Some (0, if cap_writeback_dirty s then
    s\<lparr>inodes := (inodes s)(p \<mapsto> i\<lparr>i_state := (i_state i OR I_LOCK) AND NOT I_DIRTY AND NOT I_LOCK\<rparr>),
      supers := (supers s)(i_sb i \<mapsto> b\<lparr>s_dirty := removeAll p (s_dirty b), s_io := removeAll p (s_io b)\<rparr>),
      inode_in_use := removeAll p (inode_in_use s),
      inode_unused := p # removeAll p (inode_unused s),
      nr_unused_inodes := nr_unused_inodes s + 1\<rparr> else s)"
proof -
  let ?s = "held_update (insert Inode_lock) s"
  have w: "((i_state i OR 8) AND - 16) AND 8 = 0" by (simp add: and.assoc)
  have "sync_single_inode p ?s = Some (0,
    ?s\<lparr>inodes := (inodes ?s)(p \<mapsto> i\<lparr>i_state := (i_state i OR I_LOCK) AND NOT I_DIRTY AND NOT I_LOCK\<rparr>),
      supers := (supers ?s)(i_sb i \<mapsto> b\<lparr>s_dirty := removeAll p (s_dirty b), s_io := removeAll p (s_io b)\<rparr>),
      inode_in_use := removeAll p (inode_in_use ?s),
      inode_unused := p # removeAll p (inode_unused ?s),
      nr_unused_inodes := nr_unused_inodes ?s + 1, held := insert Inode_lock (held ?s)\<rparr>)"
    by (rule sync_single_inode_ok) (simp_all add: assms)
  then show ?thesis
    using assms(1,3)
    by (simp add: write_inode_now_def writeback_single_inode_def wait_on_inode_def assms(4) w)
qed

lemma evict_state:
  fixes x :: "64 word"
  assumes "x AND 248 = 0"
  shows "((x OR 128) AND - 129) AND 248 = 0"
    and "((((x OR 128) OR 8) AND - 16) AND - 129) AND 248 = 0"
proof -
  have "x AND 112 = 0" "x AND 120 = 0" by (rule and_part [OF assms]; simp)+
  then show "((x OR 128) AND - 129) AND 248 = 0"
    and "((((x OR 128) OR 8) AND - 16) AND - 129) AND 248 = 0"
    by (simp_all add: and.assoc bit.conj_disj_distrib2)
qed

text \<open>
  The last reference to a hashed inode of a superblock that is going away. The inode is freed,
  and the number of unused inodes is counted up twice and down once when the inode is written
  back on the way.
\<close>

lemma iput_evict [effects]:
  assumes "inodes s p = Some i" and "p \<noteq> 0" and "supers s (i_sb i) = Some b" and "quiet i" and "i_count i = 1"
    and "held s = {}" and "i_hashed i" and "i_nlink i \<noteq> 0" and "s_op b \<noteq> Ramfs_ops"
    and "s_flags b AND MS_ACTIVE = 0"
  shows "iput p s = Some ((inode_gone p i b s)
    \<lparr>inode_hashtable := (\<lambda>b. removeAll p (inode_hashtable s b)),
     nr_unused_inodes := nr_unused_inodes s + (if cap_writeback_dirty s then 1 else 0)\<rparr>)"
proof -
  have x: "i_state i AND 248 = 0" using assms(4) by (simp add: quiet_def)
  note q = quietD [OF assms(4)]
  have "i_state i AND 15 = (i_state i AND 7) OR (i_state i AND 8)"
    by (simp flip: bit.conj_disj_distrib)
  then have d: "i_state i AND 15 = i_state i AND 7" by (simp add: q)
  have w: "(i_state i OR 128) AND 8 = 0" "(i_state i OR 128) AND 16 = 0"
    by (simp_all add: bit.conj_disj_distrib2 q)
  have a: "((x AND - 8) AND - 9) = x AND - 16" for x :: "64 word" by (simp add: and.assoc)
  note rules = iput_def iput_final_def generic_drop_inode_def generic_forget_inode_def Let_def
    q assms(8) assms(10) [simplified] d w a write_inode_now_unused forget_unhashed_ok quiet_def
    evict_state [OF x] inode_gone_def
  show ?thesis
  proof (cases "i_state i AND 7 = 0")
    case True
    show ?thesis using assms(1-3,5-7,9) by (simp add: rules True)
  next
    case False
    show ?thesis using assms(1-3,5-7,9) by (simp add: rules False)
  qed
qed


section \<open>The invariant of the inode cache is kept\<close>

lemma icache_wfD:
  assumes "icache_wf s"
  shows "0 < next_addr s" "inodes s p = Some i \<Longrightarrow> inode_ok s p i" "supers s q = Some b \<Longrightarrow> super_ok s q b"
    "p \<in> set (inode_hashtable s h) \<Longrightarrow> \<exists>i. inodes s p = Some i"
    "p \<in> set (inode_in_use s) \<Longrightarrow> \<exists>i. inodes s p = Some i"
    "p \<in> set (inode_unused s) \<Longrightarrow> \<exists>i. inodes s p = Some i"
  using assms by (auto simp: icache_wf_def)

lemma inode_live:
  assumes "icache_wf s" and "inodes s p = Some i"
  obtains b where "supers s (i_sb i) = Some b" "p \<in> set (s_inodes b)" "quiet i" "0 \<le> i_count i" "0 < p" "p < next_addr s"
  using icache_wfD(2) [OF assms] by (auto simp: inode_ok_def)

lemma icache_wf_fresh:
  assumes "icache_wf s"
  shows "inodes s (next_addr s) = None" "supers s (next_addr s) = None"
  using icache_wfD(2,3) [OF assms, of "next_addr s"]
  by (cases "inodes s (next_addr s)"; cases "supers s (next_addr s)"; auto simp: inode_ok_def super_ok_def)+

text \<open>A change of an inode in fields the invariant does not look at.\<close>

lemma icache_wf_upd_inode:
  assumes "icache_wf s" and "inodes s p = Some i" and "i_sb j = i_sb i" and "quiet j" and "0 \<le> i_count j"
    and "i_hashed j = i_hashed i"
  shows "icache_wf (s\<lparr>inodes := (inodes s)(p \<mapsto> j)\<rparr>)"
proof -
  let ?s = "s\<lparr>inodes := (inodes s)(p \<mapsto> j)\<rparr>"
  have "inode_ok ?s q k" if "inodes ?s q = Some k" for q k
    using that icache_wfD(2) [OF assms(1), of q k] icache_wfD(2) [OF assms(1,2)] assms(3-6)
    by (cases "q = p") (simp_all add: inode_ok_def)
  moreover have "super_ok ?s q b" if "supers ?s q = Some b" for q b
    using that icache_wfD(3) [OF assms(1), of q b] assms(2,3)
    by (fastforce simp: super_ok_def)
  ultimately show ?thesis
    using assms(1,2) by (auto simp: icache_wf_def dom_def)
qed

text \<open>Removal of an inode.\<close>

lemma icache_wf_gone:
  assumes "icache_wf s" and "inodes s p = Some i" and "supers s (i_sb i) = Some b"
  shows "icache_wf ((inode_gone p i b s)\<lparr>inode_hashtable := (\<lambda>h. removeAll p (inode_hashtable s h)),
    nr_unused_inodes := n\<rparr>)"
proof -
  let ?s = "(inode_gone p i b s)\<lparr>inode_hashtable := (\<lambda>h. removeAll p (inode_hashtable s h)),
    nr_unused_inodes := n\<rparr>"
  have "inode_ok ?s q k" if "inodes ?s q = Some k" for q k
    using that icache_wfD(2) [OF assms(1), of q k] assms(3)
    by (auto simp: inode_ok_def inode_gone_def split: if_splits)
  moreover have "super_ok ?s q c" if "supers ?s q = Some c" for q c
  proof (cases "q = i_sb i")
    case True
    with that have "c = b\<lparr>s_dirty := removeAll p (s_dirty b), s_io := removeAll p (s_io b),
        s_inodes := removeAll p (s_inodes b)\<rparr>" by (simp add: inode_gone_def)
    moreover have "super_ok s q b" using icache_wfD(3) [OF assms(1,3)] True by simp
    ultimately show ?thesis by (auto simp: super_ok_def inode_gone_def distinct_removeAll)
  next
    case False
    with that have "supers s q = Some c" by (simp add: inode_gone_def)
    then have "super_ok s q c" by (rule icache_wfD(3) [OF assms(1)])
    moreover from this have "p \<notin> set (s_inodes c)" using assms(2) False by (auto simp: super_ok_def)
    ultimately show ?thesis by (auto simp: super_ok_def inode_gone_def)
  qed
  moreover have "0 < next_addr ?s"
    "set (inode_in_use ?s) \<union> set (inode_unused ?s) \<subseteq> dom (inodes ?s)"
    "\<forall>h. set (inode_hashtable ?s h) \<subseteq> dom (inodes ?s)"
    using assms(1) by (auto simp: icache_wf_def inode_gone_def)
  ultimately show ?thesis
    unfolding icache_wf_def by blast
qed


lemma sb_same_refl [simp]: "sb_same b b"
  by (simp add: sb_same_def)

lemma sb_same_lists [simp]: "sb_same b (b\<lparr>s_dirty := x, s_io := y, s_inodes := z\<rparr>)"
  "sb_same b (b\<lparr>s_dirty := x, s_io := y\<rparr>)"
  by (simp_all add: sb_same_def)

lemma sbs_same_refl [simp]: "sbs_same m m"
  by (simp add: sbs_same_def option.rel_refl)

lemma sbs_same_upd: "m q = Some b \<Longrightarrow> sb_same b c \<Longrightarrow> sbs_same m (m(q \<mapsto> c))"
  by (simp add: sbs_same_def option.rel_refl)

lemma icache_wf_unhashed:
  assumes "icache_wf s" and "inodes s p = Some i" and "\<not> i_hashed i"
  shows "(\<lambda>h. removeAll p (inode_hashtable s h)) = inode_hashtable s"
  using icache_wfD(2) [OF assms(1,2)] assms(3)
  by (intro ext) (simp add: inode_ok_def removeAll_id)

lemma icache_step_refl [simp]: "icache_step s s"
  by (simp add: icache_step_def)

lemma icache_step_core:
  assumes "icache_step s s'"
  shows "next_addr s' = next_addr s" "mem_ok s' = mem_ok s" "held s' = held s" "last_ino s' = last_ino s"
    "cur_time s' = cur_time s" "cur_fsuid s' = cur_fsuid s" "cur_fsgid s' = cur_fsgid s"
    "cur_groups s' = cur_groups s" "cur_caps s' = cur_caps s" "inode_slab s' = inode_slab s"
  by (rule trans [OF arg_cong [OF assms [unfolded icache_step_def]]], simp)+

lemma inode_gone_shape:
  fixes n :: int
  assumes "icache_wf s" and "held s = {}" and "inodes s p = Some i" and "supers s (i_sb i) = Some b"
  defines "s' \<equiv> (inode_gone p i b s)\<lparr>inode_hashtable := (\<lambda>h. removeAll p (inode_hashtable s h)),
    nr_unused_inodes := n\<rparr>"
  shows "icache_step s s'" "icache_wf s'" "sbs_same (supers s) (supers s')"
    "inodes s' = (inodes s)(p := None)"
proof -
  show "icache_wf s'" unfolding s'_def by (rule icache_wf_gone [OF assms(1,3,4)])
  show "icache_step s s'" "sbs_same (supers s) (supers s')" "inodes s' = (inodes s)(p := None)"
    unfolding s'_def using assms(2,4) by (simp_all add: inode_gone_def icache_step_def sbs_same_upd)
qed

lemma icache_wf_to_unused:
  assumes "icache_wf s" and "inodes s p = Some i" and "supers s (i_sb i) = Some b" and "kept i b" and "quiet i"
  shows "icache_wf (s\<lparr>inodes := (inodes s)(p \<mapsto> i\<lparr>i_count := 0\<rparr>),
           supers := (supers s)(i_sb i \<mapsto> b\<lparr>s_dirty := removeAll p (s_dirty b), s_io := removeAll p (s_io b)\<rparr>),
           inode_in_use := removeAll p (inode_in_use s),
           inode_unused := p # removeAll p (inode_unused s),
           nr_unused_inodes := n, held := H\<rparr>)" (is "icache_wf ?s")
proof -
  have "inode_ok ?s q k" if "inodes ?s q = Some k" for q k
    using that icache_wfD(2) [OF assms(1), of q] assms(2,3)
    by (cases "q = p"; cases "i_sb k = i_sb i") (auto simp: inode_ok_def quiet_def)
  moreover have "super_ok ?s q c" if "supers ?s q = Some c" for q c
  proof (cases "q = i_sb i")
    case True
    with that have "c = b\<lparr>s_dirty := removeAll p (s_dirty b), s_io := removeAll p (s_io b)\<rparr>" by simp
    moreover have "super_ok s q b" using icache_wfD(3) [OF assms(1,3)] True by simp
    ultimately show ?thesis using assms(2) True by (auto simp: super_ok_def)
  next
    case False
    with that have "supers s q = Some c" by simp
    then have "super_ok s q c" by (rule icache_wfD(3) [OF assms(1)])
    with assms(2) show ?thesis by (auto simp: super_ok_def)
  qed
  moreover have "0 < next_addr ?s" "set (inode_in_use ?s) \<union> set (inode_unused ?s) \<subseteq> dom (inodes ?s)"
    "\<forall>h. set (inode_hashtable ?s h) \<subseteq> dom (inodes ?s)"
    using assms(1,2) by (auto simp: icache_wf_def)
  ultimately show ?thesis unfolding icache_wf_def by blast
qed

lemma iput_shape:
  assumes "icache_wf s" and "held s = {}" and "inodes s p = Some i" and "0 < i_count i"
    and "supers s (i_sb i) = Some b"
  obtains s' where "iput p s = Some s'" "icache_step s s'" "icache_wf s'" "sbs_same (supers s) (supers s')"
    "inodes s' = (if i_count i = 1 \<and> \<not> kept i b then (inodes s)(p := None)
         else (inodes s)(p \<mapsto> i\<lparr>i_count := i_count i - 1\<rparr>))"
proof -
  obtain "quiet i" "0 < p" using inode_live [OF assms(1,3)] by blast
  then have p: "p \<noteq> 0" by simp
  have j: "icache_wf (s\<lparr>inodes := (inodes s)(p \<mapsto> i\<lparr>i_count := i_count i - 1\<rparr>)\<rparr>)"
    by (rule icache_wf_upd_inode [OF assms(1,3)]) (use assms \<open>quiet i\<close> in \<open>simp_all add: quiet_def\<close>)
  note g = inode_gone_shape [OF assms(1,2,3,5)]
  consider (shared) "i_count i \<noteq> 1" | (kept) "i_count i = 1" "kept i b"
    | (evict) "i_count i = 1" "\<not> kept i b" "i_hashed i"
      "i_nlink i \<noteq> 0" "s_op b \<noteq> Ramfs_ops" "s_flags b AND MS_ACTIVE = 0"
    | (delete) "i_count i = 1" "\<not> kept i b" "i_nlink i = 0 \<or> s_op b = Ramfs_ops"
    | (forget) "i_count i = 1" "\<not> kept i b" "\<not> i_hashed i" "i_nlink i \<noteq> 0" "s_op b \<noteq> Ramfs_ops"
    unfolding kept_def by blast
  then show thesis
  proof cases
    case shared
    show thesis
      by (rule that [OF iput_shared [OF assms(3) p assms(5) \<open>quiet i\<close> shared]])
        (use j shared in \<open>simp_all add: icache_step_def\<close>)
  next
    case kept
    have u: "icache_wf (s\<lparr>inodes := (inodes s)(p \<mapsto> i\<lparr>i_count := 0\<rparr>), nr_unused_inodes := n, held := {}\<rparr>)" for n
      using j kept(1) assms(2) by (simp add: icache_wf_def inode_ok_def super_ok_def)
    show thesis
      by (rule that [OF iput_cache [OF assms(3) p assms(5) \<open>quiet i\<close> kept(1) assms(2)]])
        (use kept in \<open>simp_all add: kept_def icache_step_def assms(2) sbs_same_upd assms(5) u
           icache_wf_to_unused [OF assms(1,3,5) _ \<open>quiet i\<close>]\<close>)
  next
    case evict
    show thesis
      by (rule that [OF iput_evict [OF assms(3) p assms(5) \<open>quiet i\<close> evict(1) assms(2) evict(3-6)]])
        (use evict(1,2) in \<open>simp_all add: g g [simplified]\<close>)
  next
    case delete
    have "iput p s = Some ((inode_gone p i b s)\<lparr>inode_hashtable := (\<lambda>h. removeAll p (inode_hashtable s h)),
        nr_unused_inodes := nr_unused_inodes s\<rparr>)"
      using iput_delete [OF assms(3) p assms(5) \<open>quiet i\<close> delete(1) assms(2) delete(3)]
      by (simp add: inode_gone_def)
    then show thesis
      by (rule that) (use delete(1,2) in \<open>simp_all add: g g [simplified]\<close>)
  next
    case forget
    have "iput p s = Some ((inode_gone p i b s)\<lparr>inode_hashtable := (\<lambda>h. removeAll p (inode_hashtable s h)),
        nr_unused_inodes := nr_unused_inodes s\<rparr>)"
      using iput_forget [OF assms(3) p assms(5) \<open>quiet i\<close> forget(1) assms(2) forget(3-5)]
        icache_wf_unhashed [OF assms(1,3) forget(3)]
      by (simp add: inode_gone_def)
    then show thesis
      by (rule that) (use forget(1,2) in \<open>simp_all add: g g [simplified]\<close>)
  qed
qed

section \<open>Unique inode numbers\<close>

lemma find_inode_fast_chain:
  assumes "\<And>p. p \<in> set ps \<Longrightarrow> \<exists>i. inodes s p = Some i \<and> quiet i \<and> p \<noteq> 0"
  shows "\<exists>p. find_inode_fast sb ps ino s = Some p \<and>
    (p = 0 \<longleftrightarrow> (\<forall>p\<in>set ps. \<forall>i. inodes s p = Some i \<longrightarrow> \<not> (i_ino i = ino \<and> i_sb i = sb)))"
  using assms
proof (induction ps)
  case (Cons p ps)
  obtain i where i: "inodes s p = Some i" "quiet i" "p \<noteq> 0" using Cons.prems by auto
  have q: "i_state i AND (I_FREEING OR I_CLEAR OR I_WILL_FREE) = 0" using quietD [OF i(2)] by (simp add: bit.conj_disj_distrib)
  obtain r where r: "find_inode_fast sb ps ino s = Some r"
    "r = 0 \<longleftrightarrow> (\<forall>p\<in>set ps. \<forall>i. inodes s p = Some i \<longrightarrow> \<not> (i_ino i = ino \<and> i_sb i = sb))"
    using Cons by auto
  show ?case using i q r by auto
qed simp

text \<open>One round of the loop, with the counter at \<open>c\<close>.\<close>

lemma ino_free_found:
  assumes "icache_wf s"
  shows "\<exists>p. find_inode_fast sb (inode_hashtable s (i_hash sb c s)) c s = Some p \<and> (p = 0 \<longleftrightarrow> ino_free sb c s)"
  unfolding ino_free_def
proof (rule find_inode_fast_chain)
  fix p
  assume "p \<in> set (inode_hashtable s (i_hash sb c s))"
  then obtain i where i: "inodes s p = Some i" using assms unfolding icache_wf_def by blast
  show "\<exists>i. inodes s p = Some i \<and> quiet i \<and> p \<noteq> 0" by (rule inode_live [OF assms i]) (use i in auto)
qed

lemma find_inode_fast_counter: "find_inode_fast sb ps c (s\<lparr>iunique_counter := k\<rparr>) = find_inode_fast sb ps c s"
  by (induction ps) (auto simp: bind_eq_Some_conv intro!: arg_cong2 [where f = Option.bind])

lemma iunique_round:
  assumes wf: "icache_wf s"
  shows "iunique_retry sb m (s\<lparr>iunique_counter := c\<rparr>) =
    (if c > m then
       if ino_free sb c s then Option.bind (spin_unlock Inode_lock (s\<lparr>iunique_counter := c + 1\<rparr>)) (\<lambda>s. Some (c, s))
       else iunique_retry sb m (s\<lparr>iunique_counter := c + 1\<rparr>)
     else iunique_retry sb m (s\<lparr>iunique_counter := m + 1\<rparr>))"
proof -
  have h: "i_hash sb c (s\<lparr>iunique_counter := k\<rparr>) = i_hash sb c s" for k by (simp add: i_hash_def)
  obtain p where p: "find_inode_fast sb (inode_hashtable s (i_hash sb c s)) c s = Some p" "p = 0 \<longleftrightarrow> ino_free sb c s"
    using ino_free_found [OF wf] by blast
  show ?thesis
    by (subst iunique_retry.simps) (use p in \<open>simp add: Let_def h find_inode_fast_counter\<close>)
qed

text \<open>Counting up to a free number, and counting up to the wrap-around first.\<close>

lemma unat_succ_below: "c < f \<Longrightarrow> unat (c + 1) = Suc (unat c)" for c f :: "'a::len word"
proof -
  assume "c < f"
  then have "unat c < unat f" by (simp add: word_less_nat_alt)
  then have "Suc (unat c) < 2 ^ LENGTH('a)" using unsigned_less [of f, where 'a = nat] by linarith
  then show ?thesis by (simp add: unat_word_ariths)
qed

lemma iunique_reach:
  assumes wf: "icache_wf s" and lk: "Inode_lock \<in> held s" and f: "ino_free sb f s"
  shows "m < c \<Longrightarrow> c \<le> f \<Longrightarrow> \<exists>r. iunique_retry sb m (s\<lparr>iunique_counter := c\<rparr>) =
     Some (r, s\<lparr>iunique_counter := r + 1, held := held s - {Inode_lock}\<rparr>) \<and> m < r \<and> ino_free sb r s"
proof (induction "unat f - unat c" arbitrary: c rule: less_induct)
  case less
  show ?case
  proof (cases "ino_free sb c s")
    case True
    then show ?thesis using less.prems lk iunique_round [OF wf, of sb m c] by (auto simp: spin_unlock_def)
  next
    case False
    then have ne: "c < f" using f less.prems by (cases "c = f") auto
    note u = unat_succ_below [OF ne]
    have "unat c < unat f" "unat m < unat c" using ne less.prems(1) by (simp_all add: word_less_nat_alt)
    then have le: "m < c + 1" "c + 1 \<le> f" "unat f - unat (c + 1) < unat f - unat c"
      using u by (simp_all add: word_less_nat_alt word_le_nat_alt)
    then obtain r where "iunique_retry sb m (s\<lparr>iunique_counter := c + 1\<rparr>) =
       Some (r, s\<lparr>iunique_counter := r + 1, held := held s - {Inode_lock}\<rparr>)" "m < r" "ino_free sb r s"
      using less.hyps [OF le(3,1,2)] by blast
    then show ?thesis using iunique_round [OF wf, of sb m c] False less.prems(1) by auto
  qed
qed

lemma iunique_wrap:
  assumes wf: "icache_wf s" and lk: "Inode_lock \<in> held s" and f: "ino_free sb f s" "m < f"
  shows "\<exists>r. iunique_retry sb m (s\<lparr>iunique_counter := c\<rparr>) =
     Some (r, s\<lparr>iunique_counter := r + 1, held := held s - {Inode_lock}\<rparr>) \<and> m < r \<and> ino_free sb r s"
proof (induction "2 ^ 64 - unat c" arbitrary: c rule: less_induct)
  case less
  have low: "\<exists>r. iunique_retry sb m (s\<lparr>iunique_counter := m + 1\<rparr>) =
     Some (r, s\<lparr>iunique_counter := r + 1, held := held s - {Inode_lock}\<rparr>) \<and> m < r \<and> ino_free sb r s"
  proof (rule iunique_reach [OF wf lk f(1)])
    have "unat m < unat f" using f(2) by (simp add: word_less_nat_alt)
    then show "m < m + 1" "m + 1 \<le> f" using unat_succ_below [OF f(2)] by (simp_all add: word_less_nat_alt word_le_nat_alt)
  qed
  consider "\<not> c > m" | "c > m" "ino_free sb c s" | "c > m" "\<not> ino_free sb c s" "c + 1 \<noteq> 0" | "c > m" "\<not> ino_free sb c s" "c + 1 = 0" by blast
  then show ?case
  proof cases
    case 1
    then show ?thesis using low iunique_round [OF wf, of sb m c] by simp
  next
    case 2
    then show ?thesis using lk iunique_round [OF wf, of sb m c] by (auto simp: spin_unlock_def)
  next
    case 3
    then have "unat (c + 1) = Suc (unat c)" using unatSuc [of c] by (simp add: add.commute)
    then have "2 ^ 64 - unat (c + 1) < 2 ^ 64 - unat c" using unsigned_less [of c, where 'a = nat] by simp
    from less [OF this] show ?thesis using 3 iunique_round [OF wf, of sb m c] by simp
  next
    case 4
    have "iunique_retry sb m (s\<lparr>iunique_counter := 0\<rparr>) = iunique_retry sb m (s\<lparr>iunique_counter := m + 1\<rparr>)"
      using iunique_round [OF wf, of sb m 0] by simp
    then show ?thesis using 4 low iunique_round [OF wf, of sb m c] by simp
  qed
qed

lemma iunique_returns:
  assumes wf: "icache_wf s" and h: "Inode_lock \<notin> held s" and f: "ino_free sb f s" "m < f"
  shows "\<exists>r. iunique sb m s = Some (r, s\<lparr>iunique_counter := r + 1\<rparr>) \<and> m < r \<and> ino_free sb r s"
proof -
  define t where "t = s\<lparr>held := insert Inode_lock (held s)\<rparr>"
  have l: "spin_lock Inode_lock s = Some t" using h by (simp add: spin_lock_def t_def)
  have e: "ino_free sb x t = ino_free sb x s" for x by (simp add: ino_free_def i_hash_def t_def)
  have w: "icache_wf t" using wf by (simp add: icache_wf_def inode_ok_def super_ok_def t_def)
  have lt: "Inode_lock \<in> held t" and ft: "ino_free sb f t" using f(1) e by (simp_all add: t_def)
  obtain r where r: "iunique_retry sb m (t\<lparr>iunique_counter := iunique_counter t\<rparr>) =
     Some (r, t\<lparr>iunique_counter := r + 1, held := held t - {Inode_lock}\<rparr>)" "m < r" "ino_free sb r t"
    using iunique_wrap [OF w lt ft f(2), of "iunique_counter t"] by blast
  have same: "t\<lparr>iunique_counter := iunique_counter t\<rparr> = t" by simp
  have "t\<lparr>iunique_counter := r + 1, held := held t - {Inode_lock}\<rparr> = s\<lparr>iunique_counter := r + 1\<rparr>" using h by (simp add: t_def)
  then have "iunique sb m s = Some (r, s\<lparr>iunique_counter := r + 1\<rparr>)"
    using l r(1) unfolding same iunique_def by simp
  with r(2,3) e show ?thesis by blast
qed

text \<open>Truncating a time to a granularity.\<close>

lemma timespec_trunc_bounds:
  assumes "0 \<le> snd t" "snd t < 1000000000" and "0 < gran" "gran \<le> 1000000000"
  shows "fst (timespec_trunc t gran) = fst t" "0 \<le> snd (timespec_trunc t gran)" "snd (timespec_trunc t gran) \<le> snd t"
    "snd t - snd (timespec_trunc t gran) < uint gran" "jiffy_nsecs < gran \<Longrightarrow> uint gran dvd snd (timespec_trunc t gran)"
proof -
  have g: "0 < uint gran" "uint (1000000000 :: 32 word) = 1000000000" using assms(3) by (simp_all add: word_less_def)
  show "fst (timespec_trunc t gran) = fst t" by (simp add: timespec_trunc_def)
  show "0 \<le> snd (timespec_trunc t gran)" using assms(1) by (simp add: timespec_trunc_def zmod_le_nonneg_dividend)
  show "snd (timespec_trunc t gran) \<le> snd t" using assms(1) g(1) by (simp add: timespec_trunc_def)
  show "snd t - snd (timespec_trunc t gran) < uint gran" using assms(1,2) g by (auto simp: timespec_trunc_def)
  show "jiffy_nsecs < gran \<Longrightarrow> uint gran dvd snd (timespec_trunc t gran)"
    by (auto simp: timespec_trunc_def minus_mod_eq_mult_div)
qed

end
