(* ===== verification/Dcache.thy ===== *)
theory Dcache
  imports Icache
begin

text \<open>
  The directory-entry cache, \<^verbatim>\<open>fs/dcache.c\<close> and \<^verbatim>\<open>include/linux/dcache.h\<close>. The state adds the heap of
  dentries, the name hash table, the list of unused dentries, the statistics, the rename
  sequence counter and the answers \<^verbatim>\<open>need_resched()\<close> will give.

  A dentry is linked into four lists: \<open>d_child\<close> into \<open>d_subdirs\<close> of its parent, \<open>d_alias\<close> into
  \<open>i_dentry\<close> of its inode, \<open>d_lru\<close> into \<open>dentry_unused\<close>, and \<open>d_hash\<close> into a chain of the hash table
  or the list \<open>s_anon\<close> of its superblock. A dentry is freed as soon as \<^verbatim>\<open>call_rcu\<close> is
  told to: no reader runs in between.

  The one table of dentry operations that occurs, that of \<^verbatim>\<open>fs/libfs.c\<close>, has a
  \<^verbatim>\<open>d_delete\<close> that always says yes, and nothing else.
\<close>

section \<open>State\<close>

record dcache = icache +
  dentries :: "ptr \<rightharpoonup> dentry"
  dentry_slab :: "ptr \<Rightarrow> string"
  dentry_hashtable :: "nat \<Rightarrow> ptr list"
  d_hash_shift :: nat
  d_hash_mask :: "32 word"
  dentry_unused :: "ptr list"
  nr_dentry :: int
  nr_unused_dentries :: int
  rename_seq :: nat
  resched_at :: "nat \<Rightarrow> bool"
  ticks :: nat

definition upd_dentry :: "ptr \<Rightarrow> (dentry \<Rightarrow> dentry) \<Rightarrow> 'a dcache_scheme \<Rightarrow> 'a dcache_scheme option" where
  "upd_dentry p f s = do { d \<leftarrow> dentries s p; Some (s\<lparr>dentries := (dentries s)(p \<mapsto> f d)\<rparr>) }"

definition need_resched :: "'a dcache_scheme \<Rightarrow> bool \<times> 'a dcache_scheme" where
  "need_resched s = (resched_at s (ticks s), s\<lparr>ticks := ticks s + 1\<rparr>)"

definition d_unhashed :: "dentry \<Rightarrow> bool" where
  "d_unhashed d \<longleftrightarrow> d_flags d AND DCACHE_UNHASHED \<noteq> 0"

definition d_mountpoint :: "dentry \<Rightarrow> bool" where
  "d_mountpoint d \<longleftrightarrow> d_mounted d \<noteq> 0"

text \<open>\<open>list_del\<close> on each of the four links, and the test whether the alias link is in use.\<close>

definition d_child_del :: "ptr \<Rightarrow> 'a dcache_scheme \<Rightarrow> 'a dcache_scheme option" where
  "d_child_del p s = do {
     d \<leftarrow> dentries s p;
     if d_parent d = NULL then Some s
     else upd_dentry (d_parent d) (\<lambda>q. q\<lparr>d_subdirs := removeAll p (d_subdirs q)\<rparr>) s }"

definition d_alias_del :: "ptr \<Rightarrow> ptr \<Rightarrow> 'a dcache_scheme \<Rightarrow> 'a dcache_scheme option" where
  "d_alias_del p inode s = upd_inode inode (\<lambda>i. i\<lparr>i_dentry := removeAll p (i_dentry i)\<rparr>) s"

definition d_alias_empty :: "ptr \<Rightarrow> 'a dcache_scheme \<Rightarrow> bool option" where
  "d_alias_empty p s = do {
     d \<leftarrow> dentries s p;
     Some (case inodes s (d_inode d) of None \<Rightarrow> True | Some i \<Rightarrow> p \<notin> set (i_dentry i)) }"

definition d_lru_del :: "ptr \<Rightarrow> 'a dcache_scheme \<Rightarrow> 'a dcache_scheme" where
  "d_lru_del p s =
     (if p \<in> set (dentry_unused s)
      then s\<lparr>dentry_unused := removeAll p (dentry_unused s),
             nr_unused_dentries := nr_unused_dentries s - 1\<rparr>
      else s)"

definition d_hash_del :: "ptr \<Rightarrow> 'a dcache_scheme \<Rightarrow> 'a dcache_scheme option" where
  "d_hash_del p s = do {
     d \<leftarrow> dentries s p;
     s \<leftarrow> (if p \<in> (\<Union>b\<in>set_option (supers s (d_sb d)). set (s_anon b))
           then upd_super (d_sb d) (\<lambda>b. b\<lparr>s_anon := removeAll p (s_anon b)\<rparr>) s
           else Some s);
     Some (s\<lparr>dentry_hashtable := (\<lambda>b. removeAll p (dentry_hashtable s b))\<rparr>) }"

section \<open>Names\<close>

definition init_name_hash :: "64 word" where
  "init_name_hash = 0"

definition partial_name_hash :: "64 word \<Rightarrow> 64 word \<Rightarrow> 64 word" where
  "partial_name_hash c prevhash = (prevhash + push_bit 4 c + drop_bit 4 c) * 11"

definition end_name_hash :: "64 word \<Rightarrow> 64 word" where
  "end_name_hash h = ucast (ucast h :: 32 word)"

definition char_ulong :: "char \<Rightarrow> 64 word" where
  "char_ulong c = word_of_nat (of_char c)"

definition full_name_hash :: "string \<Rightarrow> nat \<Rightarrow> 32 word" where
  "full_name_hash nm len =
     ucast (end_name_hash (fold (\<lambda>c h. partial_name_hash (char_ulong c) h) (take len nm) init_name_hash))"

definition d_hash :: "ptr \<Rightarrow> 32 word \<Rightarrow> 'a dcache_scheme \<Rightarrow> nat" where
  "d_hash parent h s =
     (let h = (ucast h :: 64 word) + (word_of_int parent XOR GOLDEN_RATIO_PRIME) div L1_CACHE_BYTES;
          h = h XOR drop_bit (d_hash_shift s) (h XOR GOLDEN_RATIO_PRIME)
      in unat (h AND ucast (d_hash_mask s)))"

section \<open>References\<close>

definition dget :: "ptr \<Rightarrow> 'a dcache_scheme \<Rightarrow> 'a dcache_scheme option" where
  "dget dentry s =
     (if dentry = NULL then Some s
      else do {
        d \<leftarrow> dentries s dentry;
        if d_count d = 0 then None
        else upd_dentry dentry (\<lambda>d. d\<lparr>d_count := d_count d + 1\<rparr>) s })"

definition dget_locked :: "ptr \<Rightarrow> 'a dcache_scheme \<Rightarrow> 'a dcache_scheme option" where
  "dget_locked dentry s = do {
     s \<leftarrow> upd_dentry dentry (\<lambda>d. d\<lparr>d_count := d_count d + 1\<rparr>) s;
     Some (d_lru_del dentry s) }"

definition dget_parent :: "ptr \<Rightarrow> 'a dcache_scheme \<Rightarrow> (ptr \<times> 'a dcache_scheme) option" where
  "dget_parent dentry s = do {
     d \<leftarrow> dentries s dentry;
     s \<leftarrow> spin_lock (D_lock dentry) s;
     s \<leftarrow> dget (d_parent d) s;
     s \<leftarrow> spin_unlock (D_lock dentry) s;
     Some (d_parent d, s) }"

definition d_drop_locked :: "ptr \<Rightarrow> 'a dcache_scheme \<Rightarrow> 'a dcache_scheme option" where
  "d_drop_locked dentry s = do {
     d \<leftarrow> dentries s dentry;
     if d_unhashed d then Some s
     else do {
       s \<leftarrow> upd_dentry dentry (\<lambda>d. d\<lparr>d_flags := d_flags d OR DCACHE_UNHASHED\<rparr>) s;
       d_hash_del dentry s } }"

definition d_drop :: "ptr \<Rightarrow> 'a dcache_scheme \<Rightarrow> 'a dcache_scheme option" where
  "d_drop dentry s = do {
     s \<leftarrow> spin_lock Dcache_lock s;
     s \<leftarrow> spin_lock (D_lock dentry) s;
     s \<leftarrow> d_drop_locked dentry s;
     s \<leftarrow> spin_unlock (D_lock dentry) s;
     spin_unlock Dcache_lock s }"

definition d_free :: "ptr \<Rightarrow> 'a dcache_scheme \<Rightarrow> 'a dcache_scheme option" where
  "d_free dentry s = do {
     d \<leftarrow> dentries s dentry;
     Some (s\<lparr>dentries := (dentries s)(dentry := None)\<rparr>) }"

definition dentry_iput :: "ptr \<Rightarrow> 'a dcache_scheme \<Rightarrow> 'a dcache_scheme option" where
  "dentry_iput dentry s = do {
     d \<leftarrow> dentries s dentry;
     if d_inode d \<noteq> NULL then do {
       s \<leftarrow> upd_dentry dentry (\<lambda>d. d\<lparr>d_inode := NULL\<rparr>) s;
       s \<leftarrow> d_alias_del dentry (d_inode d) s;
       s \<leftarrow> spin_unlock (D_lock dentry) s;
       s \<leftarrow> spin_unlock Dcache_lock s;
       iput (d_inode d) s }
     else do {
       s \<leftarrow> spin_unlock (D_lock dentry) s;
       spin_unlock Dcache_lock s } }"

text \<open>
  The part of \<^verbatim>\<open>dput\<close> after the label \<^verbatim>\<open>kill_it\<close>, up to the jump back: the dentry is
  unlinked and freed, and its parent is what the code goes on with, unless it is its own parent.
\<close>

definition dput_kill :: "ptr \<Rightarrow> 'a dcache_scheme \<Rightarrow> (ptr option \<times> 'a dcache_scheme) option" where
  "dput_kill dentry s =
    (let s = d_lru_del dentry s in do {
     s \<leftarrow> d_child_del dentry s;
     s \<leftarrow> dentry_iput dentry (s\<lparr>nr_dentry := nr_dentry s - 1\<rparr>);
     d \<leftarrow> dentries s dentry;
     s \<leftarrow> d_free dentry s;
     Some (if dentry = d_parent d then None else Some (d_parent d), s) })"

text \<open>What \<^verbatim>\<open>dput\<close> does to a dentry that has lost its last reference.\<close>

definition dput_last :: "ptr \<Rightarrow> 'a dcache_scheme \<Rightarrow> (ptr option \<times> 'a dcache_scheme) option" where
  "dput_last dentry s = do {
     s \<leftarrow> spin_lock (D_lock dentry) s;
     d \<leftarrow> dentries s dentry;
     if d_count d \<noteq> 0 then do {
       s \<leftarrow> spin_unlock (D_lock dentry) s;
       s \<leftarrow> spin_unlock Dcache_lock s;
       Some (None, s) }
     else if d_op d = Simple_dentry_operations then do {
       s \<leftarrow> d_drop_locked dentry s;
       dput_kill dentry s }
     else if d_unhashed d then dput_kill dentry s
     else do {
       s \<leftarrow> (if dentry \<in> set (dentry_unused s) then Some s
             else do {
               s \<leftarrow> upd_dentry dentry (\<lambda>d. d\<lparr>d_flags := d_flags d OR DCACHE_REFERENCED\<rparr>) s;
               Some (s\<lparr>dentry_unused := dentry # dentry_unused s,
                       nr_unused_dentries := nr_unused_dentries s + 1\<rparr>) });
       s \<leftarrow> spin_unlock (D_lock dentry) s;
       s \<leftarrow> spin_unlock Dcache_lock s;
       Some (None, s) } }"

partial_function (option) dput_repeat :: "ptr \<Rightarrow> 'a dcache_scheme \<Rightarrow> 'a dcache_scheme option" where
  "dput_repeat dentry s =
     Option.bind (dentries s dentry) (\<lambda>d.
     if d_count d \<noteq> 1 then upd_dentry dentry (\<lambda>d. d\<lparr>d_count := d_count d - 1\<rparr>) s
     else
       Option.bind (might_sleep s) (\<lambda>s.
       Option.bind (spin_lock Dcache_lock s) (\<lambda>s.
       Option.bind (upd_dentry dentry (\<lambda>d. d\<lparr>d_count := d_count d - 1\<rparr>) s) (\<lambda>s.
       Option.bind (dput_last dentry s) (\<lambda>(parent, s).
       case parent of None \<Rightarrow> Some s | Some parent \<Rightarrow> dput_repeat parent s)))))"

declare dput_repeat.simps [code]

definition dput :: "ptr \<Rightarrow> 'a dcache_scheme \<Rightarrow> 'a dcache_scheme option" where
  "dput dentry s = (if dentry = NULL then Some s else dput_repeat dentry s)"

section \<open>Allocation, instantiation and hashing\<close>

definition d_alloc :: "ptr \<Rightarrow> qstr \<Rightarrow> 'a dcache_scheme \<Rightarrow> (ptr \<times> 'a dcache_scheme) option" where
  "d_alloc parent nm s = do {
     (dentry, s) \<leftarrow> kalloc s;
     if dentry = NULL then Some (NULL, s)
     else do {
       (dname, s) \<leftarrow> (if q_len nm > DNAME_INLINE_LEN - 1 then kalloc s else Some (dentry, s));
       if dname = NULL then Some (NULL, s)
       else do {
         let external = q_len nm > DNAME_INLINE_LEN - 1;
             str = take (q_len nm) (q_name nm);
             s = s\<lparr>dentries := (dentries s)(dentry \<mapsto>
               \<lparr>d_count = 1, d_flags = DCACHE_UNHASHED, d_inode = NULL, d_parent = NULL,
                d_name = \<lparr>q_hash = q_hash nm, q_len = q_len nm, q_name = str\<rparr>,
                d_subdirs = [], d_op = No_dops, d_sb = NULL, d_fsdata = NULL, d_mounted = 0,
                d_iname = (if external then dentry_slab s dentry else str),
                d_external = external\<rparr>)\<rparr> in do {
         s \<leftarrow> (if parent \<noteq> NULL then do {
                 s \<leftarrow> dget parent s;
                 p \<leftarrow> dentries s parent;
                 upd_dentry dentry (\<lambda>d. d\<lparr>d_parent := parent, d_sb := d_sb p\<rparr>) s }
               else Some s);
         s \<leftarrow> spin_lock Dcache_lock s;
         s \<leftarrow> (if parent \<noteq> NULL
               then upd_dentry parent (\<lambda>p. p\<lparr>d_subdirs := dentry # d_subdirs p\<rparr>) s
               else Some s);
         s \<leftarrow> spin_unlock Dcache_lock (s\<lparr>nr_dentry := nr_dentry s + 1\<rparr>);
         Some (dentry, s) } } } }"

definition d_alloc_name :: "ptr \<Rightarrow> string \<Rightarrow> 'a dcache_scheme \<Rightarrow> (ptr \<times> 'a dcache_scheme) option" where
  "d_alloc_name parent nm s =
     d_alloc parent \<lparr>q_hash = full_name_hash nm (length nm), q_len = length nm, q_name = nm\<rparr> s"

definition d_instantiate :: "ptr \<Rightarrow> ptr \<Rightarrow> 'a dcache_scheme \<Rightarrow> 'a dcache_scheme option" where
  "d_instantiate entry inode s = do {
     unlinked \<leftarrow> d_alias_empty entry s;
     if \<not> unlinked then None
     else do {
       s \<leftarrow> spin_lock Dcache_lock s;
       s \<leftarrow> (if inode \<noteq> NULL
             then upd_inode inode (\<lambda>i. i\<lparr>i_dentry := entry # i_dentry i\<rparr>) s else Some s);
       s \<leftarrow> upd_dentry entry (\<lambda>d. d\<lparr>d_inode := inode\<rparr>) s;
       spin_unlock Dcache_lock s } }"

fun unique_alias :: "dentry \<Rightarrow> ptr list \<Rightarrow> 'a dcache_scheme \<Rightarrow> ptr option" where
  "unique_alias entry [] s = Some NULL"
| "unique_alias entry (alias # aliases) s = do {
     a \<leftarrow> dentries s alias;
     if q_hash (d_name a) \<noteq> q_hash (d_name entry) then unique_alias entry aliases s
     else if d_parent a \<noteq> d_parent entry then unique_alias entry aliases s
     else if q_len (d_name a) \<noteq> q_len (d_name entry) then unique_alias entry aliases s
     else if take (q_len (d_name entry)) (q_name (d_name a)) \<noteq>
             take (q_len (d_name entry)) (q_name (d_name entry)) then unique_alias entry aliases s
     else Some alias }"

definition d_instantiate_unique ::
  "ptr \<Rightarrow> ptr \<Rightarrow> 'a dcache_scheme \<Rightarrow> (ptr \<times> 'a dcache_scheme) option" where
  "d_instantiate_unique entry inode s = do {
     e \<leftarrow> dentries s entry;
     unlinked \<leftarrow> d_alias_empty entry s;
     if \<not> unlinked then None
     else do {
       s \<leftarrow> spin_lock Dcache_lock s;
       if inode = NULL then do {
         s \<leftarrow> upd_dentry entry (\<lambda>d. d\<lparr>d_inode := inode\<rparr>) s;
         s \<leftarrow> spin_unlock Dcache_lock s;
         Some (NULL, s) }
       else do {
         i \<leftarrow> inodes s inode;
         alias \<leftarrow> unique_alias e (i_dentry i) s;
         if alias \<noteq> NULL then do {
           s \<leftarrow> dget_locked alias s;
           s \<leftarrow> spin_unlock Dcache_lock s;
           a \<leftarrow> dentries s alias;
           if \<not> d_unhashed a then None else Some (alias, s) }
         else do {
           s \<leftarrow> upd_inode inode (\<lambda>i. i\<lparr>i_dentry := entry # i_dentry i\<rparr>) s;
           s \<leftarrow> upd_dentry entry (\<lambda>d. d\<lparr>d_inode := inode\<rparr>) s;
           s \<leftarrow> spin_unlock Dcache_lock s;
           Some (NULL, s) } } } }"

definition d_alloc_root :: "ptr \<Rightarrow> 'a dcache_scheme \<Rightarrow> (ptr \<times> 'a dcache_scheme) option" where
  "d_alloc_root root_inode s =
     (if root_inode = NULL then Some (NULL, s)
      else do {
        (res, s) \<leftarrow> d_alloc NULL \<lparr>q_hash = 0, q_len = 1, q_name = ''/''\<rparr> s;
        if res = NULL then Some (NULL, s)
        else do {
          i \<leftarrow> inodes s root_inode;
          s \<leftarrow> upd_dentry res (\<lambda>d. d\<lparr>d_sb := i_sb i, d_parent := res\<rparr>) s;
          s \<leftarrow> d_instantiate res root_inode s;
          Some (res, s) } })"

definition d_rehash_locked :: "ptr \<Rightarrow> nat \<Rightarrow> 'a dcache_scheme \<Rightarrow> 'a dcache_scheme option" where
  "d_rehash_locked entry b s = do {
     s \<leftarrow> upd_dentry entry (\<lambda>d. d\<lparr>d_flags := d_flags d AND NOT DCACHE_UNHASHED\<rparr>) s;
     Some (s\<lparr>dentry_hashtable := (dentry_hashtable s)(b := entry # dentry_hashtable s b)\<rparr>) }"

definition d_rehash :: "ptr \<Rightarrow> 'a dcache_scheme \<Rightarrow> 'a dcache_scheme option" where
  "d_rehash entry s = do {
     d \<leftarrow> dentries s entry;
     let b = d_hash (d_parent d) (q_hash (d_name d)) s in do {
     s \<leftarrow> spin_lock Dcache_lock s;
     s \<leftarrow> spin_lock (D_lock entry) s;
     s \<leftarrow> d_rehash_locked entry b s;
     s \<leftarrow> spin_unlock (D_lock entry) s;
     spin_unlock Dcache_lock s } }"

definition d_add :: "ptr \<Rightarrow> ptr \<Rightarrow> 'a dcache_scheme \<Rightarrow> 'a dcache_scheme option" where
  "d_add entry inode s = do { s \<leftarrow> d_instantiate entry inode s; d_rehash entry s }"

definition d_add_unique :: "ptr \<Rightarrow> ptr \<Rightarrow> 'a dcache_scheme \<Rightarrow> (ptr \<times> 'a dcache_scheme) option" where
  "d_add_unique entry inode s = do {
     (res, s) \<leftarrow> d_instantiate_unique entry inode s;
     s \<leftarrow> d_rehash (if res \<noteq> NULL then res else entry) s;
     Some (res, s) }"

section \<open>Lookup\<close>

fun d_lookup_chain :: "ptr \<Rightarrow> qstr \<Rightarrow> ptr list \<Rightarrow> 'a dcache_scheme \<Rightarrow> (ptr \<times> 'a dcache_scheme) option" where
  "d_lookup_chain parent nm [] s = Some (NULL, s)"
| "d_lookup_chain parent nm (dentry # node) s = do {
     d \<leftarrow> dentries s dentry;
     if q_hash (d_name d) \<noteq> q_hash nm then d_lookup_chain parent nm node s
     else if d_parent d \<noteq> parent then d_lookup_chain parent nm node s
     else do {
       s \<leftarrow> spin_lock (D_lock dentry) s;
       p \<leftarrow> dentries s parent;
       if d_parent d \<noteq> parent \<or> q_len (d_name d) \<noteq> q_len nm \<or>
          take (q_len nm) (q_name (d_name d)) \<noteq> take (q_len nm) (q_name nm) then do {
         s \<leftarrow> spin_unlock (D_lock dentry) s;
         d_lookup_chain parent nm node s }
       else if \<not> d_unhashed d then do {
         s \<leftarrow> upd_dentry dentry (\<lambda>d. d\<lparr>d_count := d_count d + 1\<rparr>) s;
         s \<leftarrow> spin_unlock (D_lock dentry) s;
         Some (dentry, s) }
       else do {
         s \<leftarrow> spin_unlock (D_lock dentry) s;
         Some (NULL, s) } } }"

definition d_lookup_rcu :: "ptr \<Rightarrow> qstr \<Rightarrow> 'a dcache_scheme \<Rightarrow> (ptr \<times> 'a dcache_scheme) option" where
  "d_lookup_rcu parent nm s =
     d_lookup_chain parent nm (dentry_hashtable s (d_hash parent (q_hash nm) s)) s"

text \<open>
  \<^verbatim>\<open>read_seqbegin\<close> spins while a writer is at work; with none, \<^verbatim>\<open>read_seqretry\<close> never asks
  for another round.
\<close>

definition read_seqbegin :: "'a dcache_scheme \<Rightarrow> nat option" where
  "read_seqbegin s = (if odd (rename_seq s) then None else Some (rename_seq s))"

definition d_lookup :: "ptr \<Rightarrow> qstr \<Rightarrow> 'a dcache_scheme \<Rightarrow> (ptr \<times> 'a dcache_scheme) option" where
  "d_lookup parent nm s = do {
     seq \<leftarrow> read_seqbegin s;
     d_lookup_rcu parent nm s }"

definition find_inode_number :: "ptr \<Rightarrow> qstr \<Rightarrow> 'a dcache_scheme \<Rightarrow> (64 word \<times> 'a dcache_scheme) option" where
  "find_inode_number dir nm s = do {
     p \<leftarrow> dentries s dir;
     (dentry, s) \<leftarrow> d_lookup dir (nm\<lparr>q_hash := full_name_hash (q_name nm) (q_len nm)\<rparr>) s;
     if dentry \<noteq> NULL then do {
       d \<leftarrow> dentries s dentry;
       ino \<leftarrow> (if d_inode d \<noteq> NULL then do { i \<leftarrow> inodes s (d_inode d); Some (i_ino i) } else Some 0);
       s \<leftarrow> dput dentry s;
       Some (ino, s) }
     else Some (0, s) }"

section \<open>Aliases\<close>

fun find_alias :: "inode \<Rightarrow> bool \<Rightarrow> ptr list \<Rightarrow> ptr \<Rightarrow> 'a dcache_scheme \<Rightarrow> (ptr \<times> bool) option" where
  "find_alias i want_discon [] discon_alias s = Some (discon_alias, discon_alias \<noteq> NULL)"
| "find_alias i want_discon (alias # nxt) discon_alias s = do {
     a \<leftarrow> dentries s alias;
     if S_ISDIR (i_mode i) \<or> \<not> d_unhashed a then
       if d_flags a AND DCACHE_DISCONNECTED \<noteq> 0 then find_alias i want_discon nxt alias s
       else if \<not> want_discon then Some (alias, True)
       else find_alias i want_discon nxt discon_alias s
     else find_alias i want_discon nxt discon_alias s }"

definition d_find_alias_locked ::
  "ptr \<Rightarrow> bool \<Rightarrow> 'a dcache_scheme \<Rightarrow> (ptr \<times> 'a dcache_scheme) option" where
  "d_find_alias_locked inode want_discon s = do {
     i \<leftarrow> inodes s inode;
     (alias, grab) \<leftarrow> find_alias i want_discon (i_dentry i) NULL s;
     if grab then do { s \<leftarrow> dget_locked alias s; Some (alias, s) }
     else Some (alias, s) }"

definition d_find_alias :: "ptr \<Rightarrow> 'a dcache_scheme \<Rightarrow> (ptr \<times> 'a dcache_scheme) option" where
  "d_find_alias inode s = do {
     s \<leftarrow> spin_lock Dcache_lock s;
     (de, s) \<leftarrow> d_find_alias_locked inode False s;
     s \<leftarrow> spin_unlock Dcache_lock s;
     Some (de, s) }"

text \<open>
  One pass of \<^verbatim>\<open>d_prune_aliases\<close> over the aliases: it stops at the first unused one, drops and
  puts it, and then starts again.
\<close>

fun prune_first_alias :: "ptr list \<Rightarrow> 'a dcache_scheme \<Rightarrow> (bool \<times> 'a dcache_scheme) option" where
  "prune_first_alias [] s = do {
     s \<leftarrow> spin_unlock Dcache_lock s;
     Some (False, s) }"
| "prune_first_alias (dentry # aliases) s = do {
     s \<leftarrow> spin_lock (D_lock dentry) s;
     d \<leftarrow> dentries s dentry;
     if d_count d = 0 then do {
       s \<leftarrow> dget_locked dentry s;
       s \<leftarrow> d_drop_locked dentry s;
       s \<leftarrow> spin_unlock (D_lock dentry) s;
       s \<leftarrow> spin_unlock Dcache_lock s;
       s \<leftarrow> dput dentry s;
       Some (True, s) }
     else do {
       s \<leftarrow> spin_unlock (D_lock dentry) s;
       prune_first_alias aliases s } }"

partial_function (option) d_prune_aliases :: "ptr \<Rightarrow> 'a dcache_scheme \<Rightarrow> 'a dcache_scheme option" where
  "d_prune_aliases inode s =
     Option.bind (spin_lock Dcache_lock s) (\<lambda>s.
     Option.bind (inodes s inode) (\<lambda>i.
     Option.bind (prune_first_alias (i_dentry i) s) (\<lambda>(again, s).
     if again then d_prune_aliases inode s else Some s)))"

declare d_prune_aliases.simps [code]

definition d_alloc_anon :: "ptr \<Rightarrow> 'a dcache_scheme \<Rightarrow> (ptr \<times> 'a dcache_scheme) option" where
  "d_alloc_anon inode s = do {
     (res, s) \<leftarrow> d_find_alias inode s;
     if res \<noteq> NULL then do { s \<leftarrow> iput inode s; Some (res, s) }
     else do {
       (tmp, s) \<leftarrow> d_alloc NULL \<lparr>q_hash = 0, q_len = 0, q_name = []\<rparr> s;
       if tmp = NULL then Some (NULL, s)
       else do {
         s \<leftarrow> upd_dentry tmp (\<lambda>d. d\<lparr>d_parent := tmp\<rparr>) s;
         s \<leftarrow> spin_lock Dcache_lock s;
         (res, s) \<leftarrow> d_find_alias_locked inode False s;
         if res = NULL then do {
           s \<leftarrow> spin_lock (D_lock tmp) s;
           i \<leftarrow> inodes s inode;
           s \<leftarrow> upd_dentry tmp (\<lambda>d. d\<lparr>d_sb := i_sb i, d_parent := tmp, d_inode := inode,
                  d_flags := (d_flags d OR DCACHE_DISCONNECTED) AND NOT DCACHE_UNHASHED\<rparr>) s;
           s \<leftarrow> upd_inode inode (\<lambda>i. i\<lparr>i_dentry := tmp # i_dentry i\<rparr>) s;
           s \<leftarrow> upd_super (i_sb i) (\<lambda>b. b\<lparr>s_anon := tmp # s_anon b\<rparr>) s;
           s \<leftarrow> spin_unlock (D_lock tmp) s;
           s \<leftarrow> spin_unlock Dcache_lock s;
           Some (tmp, s) }
         else do {
           s \<leftarrow> spin_unlock Dcache_lock s;
           s \<leftarrow> iput inode s;
           s \<leftarrow> dput tmp s;
           Some (res, s) } } } }"

section \<open>Deleting and moving\<close>

definition d_delete :: "ptr \<Rightarrow> 'a dcache_scheme \<Rightarrow> 'a dcache_scheme option" where
  "d_delete dentry s = do {
     s \<leftarrow> spin_lock Dcache_lock s;
     s \<leftarrow> spin_lock (D_lock dentry) s;
     d \<leftarrow> dentries s dentry;
     i \<leftarrow> inodes s (d_inode d);
     if d_count d = 1 then dentry_iput dentry s
     else do {
       s \<leftarrow> (if \<not> d_unhashed d then d_drop_locked dentry s else Some s);
       s \<leftarrow> spin_unlock (D_lock dentry) s;
       spin_unlock Dcache_lock s } }"

definition dname_external :: "dentry \<Rightarrow> bool" where
  "dname_external d = d_external d"

text \<open>
  \<open>q_name\<close> is the string the name pointer points to. An external name is a block of its own and
  moves with the pointer; an internal one is \<open>d_iname\<close> and is copied.
\<close>

definition set_name :: "string \<Rightarrow> bool \<Rightarrow> dentry \<Rightarrow> dentry" where
  "set_name str external d = d\<lparr>d_name := (d_name d)\<lparr>q_name := str\<rparr>, d_external := external\<rparr>"

definition switch_names :: "dentry \<Rightarrow> dentry \<Rightarrow> dentry \<times> dentry" where
  "switch_names d t =
     (if dname_external t then
        if dname_external d
        then (set_name (q_name (d_name t)) True d, set_name (q_name (d_name d)) True t)
        else (set_name (q_name (d_name t)) True d, set_name (d_iname t) False t)
      else
        let d' = d\<lparr>d_iname := q_name (d_name t)\<rparr> in
        if dname_external d
        then (set_name (d_iname d') False d', set_name (q_name (d_name d)) True t)
        else (set_name (d_iname d') False d', t))"

definition switch_len_hash :: "dentry \<Rightarrow> dentry \<Rightarrow> dentry" where
  "switch_len_hash d t =
     d\<lparr>d_name := (d_name d)\<lparr>q_len := q_len (d_name t), q_hash := q_hash (d_name t)\<rparr>\<rparr>"

definition d_move :: "ptr \<Rightarrow> ptr \<Rightarrow> 'a dcache_scheme \<Rightarrow> 'a dcache_scheme option" where
  "d_move dentry target s = do {
     s \<leftarrow> spin_lock Dcache_lock s;
     let s = s\<lparr>rename_seq := rename_seq s + 1\<rparr> in do {
     s \<leftarrow> (if target < dentry
           then do { s \<leftarrow> spin_lock (D_lock target) s; spin_lock (D_lock dentry) s }
           else do { s \<leftarrow> spin_lock (D_lock dentry) s; spin_lock (D_lock target) s });
     d \<leftarrow> dentries s dentry;
     s \<leftarrow> (if d_unhashed d then Some s else d_hash_del dentry s);
     t \<leftarrow> dentries s target;
     s \<leftarrow> d_rehash_locked dentry (d_hash (d_parent t) (q_hash (d_name t)) s) s;
     s \<leftarrow> d_drop_locked target s;
     s \<leftarrow> d_child_del dentry s;
     s \<leftarrow> d_child_del target s;
     d \<leftarrow> dentries s dentry;
     t \<leftarrow> dentries s target;
     let (d1, t1) = switch_names d t;
         d2 = switch_len_hash d1 t1;
         t2 = switch_len_hash t1 d1 in do {
     s \<leftarrow> (if d_parent d2 = dentry
           then Some (s\<lparr>dentries := (dentries s)(dentry \<mapsto> d2\<lparr>d_parent := d_parent t2\<rparr>,
                                                 target \<mapsto> t2\<lparr>d_parent := target\<rparr>)\<rparr>)
           else upd_dentry (d_parent d2) (\<lambda>q. q\<lparr>d_subdirs := target # d_subdirs q\<rparr>)
                  (s\<lparr>dentries := (dentries s)(dentry \<mapsto> d2\<lparr>d_parent := d_parent t2\<rparr>,
                                               target \<mapsto> t2\<lparr>d_parent := d_parent d2\<rparr>)\<rparr>));
     s \<leftarrow> upd_dentry (d_parent t2) (\<lambda>q. q\<lparr>d_subdirs := dentry # d_subdirs q\<rparr>) s;
     s \<leftarrow> spin_unlock (D_lock target) s;
     s \<leftarrow> spin_unlock (D_lock dentry) s;
     spin_unlock Dcache_lock (s\<lparr>rename_seq := rename_seq s + 1\<rparr>) } } }"

definition d_splice_alias :: "ptr \<Rightarrow> ptr \<Rightarrow> 'a dcache_scheme \<Rightarrow> (ptr \<times> 'a dcache_scheme) option" where
  "d_splice_alias inode dentry s =
     (if inode \<noteq> NULL then do {
        s \<leftarrow> spin_lock Dcache_lock s;
        (new, s) \<leftarrow> d_find_alias_locked inode True s;
        if new \<noteq> NULL then do {
          n \<leftarrow> dentries s new;
          if d_flags n AND DCACHE_DISCONNECTED = 0 then None
          else do {
            s \<leftarrow> spin_unlock Dcache_lock s;
            s \<leftarrow> d_rehash dentry s;
            s \<leftarrow> d_move new dentry s;
            s \<leftarrow> iput inode s;
            Some (new, s) } }
        else do {
          s \<leftarrow> upd_inode inode (\<lambda>i. i\<lparr>i_dentry := dentry # i_dentry i\<rparr>) s;
          s \<leftarrow> upd_dentry dentry (\<lambda>d. d\<lparr>d_inode := inode\<rparr>) s;
          s \<leftarrow> spin_unlock Dcache_lock s;
          s \<leftarrow> d_rehash dentry s;
          Some (NULL, s) } }
      else do {
        s \<leftarrow> d_add dentry inode s;
        Some (NULL, s) })"

section \<open>Pruning\<close>

definition prune_one_dentry :: "ptr \<Rightarrow> 'a dcache_scheme \<Rightarrow> 'a dcache_scheme option" where
  "prune_one_dentry dentry s = do {
     s \<leftarrow> d_drop_locked dentry s;
     s \<leftarrow> d_child_del dentry s;
     s \<leftarrow> dentry_iput dentry (s\<lparr>nr_dentry := nr_dentry s - 1\<rparr>);
     d \<leftarrow> dentries s dentry;
     s \<leftarrow> d_free dentry s;
     s \<leftarrow> (if d_parent d \<noteq> dentry then dput (d_parent d) s else Some s);
     spin_lock Dcache_lock s }"

text \<open>The body of the loop of \<^verbatim>\<open>prune_dcache\<close>, on the dentry at the end of the unused list.\<close>

definition prune_last :: "ptr \<Rightarrow> 'a dcache_scheme \<Rightarrow> 'a dcache_scheme option" where
  "prune_last dentry s =
    (let s = s\<lparr>dentry_unused := removeAll dentry (dentry_unused s),
               nr_unused_dentries := nr_unused_dentries s - 1\<rparr> in do {
     s \<leftarrow> spin_lock (D_lock dentry) s;
     d \<leftarrow> dentries s dentry;
     if d_count d \<noteq> 0 then spin_unlock (D_lock dentry) s
     else if d_flags d AND DCACHE_REFERENCED \<noteq> 0 then do {
       s \<leftarrow> upd_dentry dentry (\<lambda>d. d\<lparr>d_flags := d_flags d AND NOT DCACHE_REFERENCED\<rparr>) s;
       spin_unlock (D_lock dentry)
         (s\<lparr>dentry_unused := dentry # dentry_unused s,
            nr_unused_dentries := nr_unused_dentries s + 1\<rparr>) }
     else prune_one_dentry dentry s })"

fun prune_loop :: "nat \<Rightarrow> 'a dcache_scheme \<Rightarrow> 'a dcache_scheme option" where
  "prune_loop 0 s = Some s"
| "prune_loop (Suc count) s =
     (if dentry_unused s = [] then Some s
      else do {
        s \<leftarrow> prune_last (last (dentry_unused s)) s;
        prune_loop count s })"

definition prune_dcache :: "nat \<Rightarrow> 'a dcache_scheme \<Rightarrow> 'a dcache_scheme option" where
  "prune_dcache count s = do {
     s \<leftarrow> spin_lock Dcache_lock s;
     s \<leftarrow> prune_loop count s;
     spin_unlock Dcache_lock s }"

fun move_sb_front :: "ptr \<Rightarrow> ptr list \<Rightarrow> 'a dcache_scheme \<Rightarrow> 'a dcache_scheme option" where
  "move_sb_front sb [] s = Some s"
| "move_sb_front sb (dentry # nxt) s = do {
     d \<leftarrow> dentries s dentry;
     move_sb_front sb nxt
       (if d_sb d \<noteq> sb then s
        else s\<lparr>dentry_unused := dentry # removeAll dentry (dentry_unused s)\<rparr>) }"

text \<open>
  One round of the second pass of \<^verbatim>\<open>shrink_dcache_sb\<close>: it ends with the first dentry it
  frees, after which the code starts over, or at the end of the list.
\<close>

fun shrink_sb_round :: "ptr \<Rightarrow> ptr list \<Rightarrow> 'a dcache_scheme \<Rightarrow> (bool \<times> 'a dcache_scheme) option" where
  "shrink_sb_round sb [] s = Some (False, s)"
| "shrink_sb_round sb (dentry # nxt) s = do {
     d \<leftarrow> dentries s dentry;
     if d_sb d \<noteq> sb then shrink_sb_round sb nxt s
     else
       let s = s\<lparr>nr_unused_dentries := nr_unused_dentries s - 1,
                 dentry_unused := removeAll dentry (dentry_unused s)\<rparr> in do {
       s \<leftarrow> spin_lock (D_lock dentry) s;
       if d_count d \<noteq> 0 then do {
         s \<leftarrow> spin_unlock (D_lock dentry) s;
         shrink_sb_round sb nxt s }
       else do {
         s \<leftarrow> prune_one_dentry dentry s;
         Some (True, s) } } }"

partial_function (option) shrink_sb_repeat :: "ptr \<Rightarrow> 'a dcache_scheme \<Rightarrow> 'a dcache_scheme option" where
  "shrink_sb_repeat sb s =
     Option.bind (shrink_sb_round sb (dentry_unused s) s) (\<lambda>(again, s).
     if again then shrink_sb_repeat sb s else Some s)"

declare shrink_sb_repeat.simps [code]

definition shrink_dcache_sb :: "ptr \<Rightarrow> 'a dcache_scheme \<Rightarrow> 'a dcache_scheme option" where
  "shrink_dcache_sb sb s = do {
     s \<leftarrow> spin_lock Dcache_lock s;
     s \<leftarrow> move_sb_front sb (dentry_unused s) s;
     s \<leftarrow> shrink_sb_repeat sb s;
     spin_unlock Dcache_lock s }"

section \<open>Walks over the tree\<close>

text \<open>
  The three walks below descend into the first child that has children and come back up by the
  links of the child. Where the code keeps a pointer into the list of the children, the model
  keeps the children that follow.
\<close>

definition after :: "ptr \<Rightarrow> ptr list \<Rightarrow> ptr list" where
  "after p xs = tl (dropWhile (\<lambda>x. x \<noteq> p) xs)"

definition d_child_next :: "ptr \<Rightarrow> 'a dcache_scheme \<Rightarrow> (ptr \<times> ptr list) option" where
  "d_child_next this s = do {
     t \<leftarrow> dentries s this;
     p \<leftarrow> dentries s (d_parent t);
     Some (d_parent t, after this (d_subdirs p)) }"

partial_function (option) have_submounts_resume ::
  "ptr \<Rightarrow> ptr \<Rightarrow> ptr list \<Rightarrow> 'a dcache_scheme \<Rightarrow> bool option" where
  "have_submounts_resume parent this_parent nxt s =
     (case nxt of
        dentry # nxt \<Rightarrow>
          Option.bind (dentries s dentry) (\<lambda>d.
          if d_mountpoint d then Some True
          else if d_subdirs d \<noteq> [] then have_submounts_resume parent dentry (d_subdirs d) s
          else have_submounts_resume parent this_parent nxt s)
      | [] \<Rightarrow>
          if this_parent \<noteq> parent then
            Option.bind (d_child_next this_parent s) (\<lambda>(up, nxt).
            have_submounts_resume parent up nxt s)
          else Some False)"

declare have_submounts_resume.simps [code]

definition have_submounts :: "ptr \<Rightarrow> 'a dcache_scheme \<Rightarrow> (bool \<times> 'a dcache_scheme) option" where
  "have_submounts parent s = do {
     s \<leftarrow> spin_lock Dcache_lock s;
     p \<leftarrow> dentries s parent;
     r \<leftarrow> (if d_mountpoint p then Some True
           else have_submounts_resume parent parent (d_subdirs p) s);
     s \<leftarrow> spin_unlock Dcache_lock s;
     Some (r, s) }"

text \<open>What \<^verbatim>\<open>select_parent\<close> and \<^verbatim>\<open>shrink_dcache_anon\<close> do to a dentry they pass.\<close>

definition select_dentry :: "ptr \<Rightarrow> nat \<Rightarrow> 'a dcache_scheme \<Rightarrow> (nat \<times> 'a dcache_scheme) option" where
  "select_dentry dentry found s =
    (let s = d_lru_del dentry s in do {
     d \<leftarrow> dentries s dentry;
     if d_count d = 0
     then Some (found + 1, s\<lparr>dentry_unused := dentry_unused s @ [dentry],
                             nr_unused_dentries := nr_unused_dentries s + 1\<rparr>)
     else Some (found, s) })"

partial_function (option) select_parent_resume ::
  "ptr \<Rightarrow> ptr \<Rightarrow> ptr list \<Rightarrow> nat \<Rightarrow> 'a dcache_scheme \<Rightarrow> (nat \<times> 'a dcache_scheme) option" where
  "select_parent_resume parent this_parent nxt found s =
     (case nxt of
        dentry # nxt \<Rightarrow>
          Option.bind (select_dentry dentry found s) (\<lambda>(found, s).
          Option.bind (dentries s dentry) (\<lambda>d.
          case (if found \<noteq> 0 then need_resched s else (False, s)) of (resched, s) \<Rightarrow>
          if resched then Some (found, s)
          else if d_subdirs d \<noteq> [] then select_parent_resume parent dentry (d_subdirs d) found s
          else select_parent_resume parent this_parent nxt found s))
      | [] \<Rightarrow>
          if this_parent \<noteq> parent then
            Option.bind (d_child_next this_parent s) (\<lambda>(up, nxt).
            select_parent_resume parent up nxt found s)
          else Some (found, s))"

declare select_parent_resume.simps [code]

definition select_parent :: "ptr \<Rightarrow> 'a dcache_scheme \<Rightarrow> (nat \<times> 'a dcache_scheme) option" where
  "select_parent parent s = do {
     s \<leftarrow> spin_lock Dcache_lock s;
     p \<leftarrow> dentries s parent;
     (found, s) \<leftarrow> select_parent_resume parent parent (d_subdirs p) 0 s;
     s \<leftarrow> spin_unlock Dcache_lock s;
     Some (found, s) }"

partial_function (option) shrink_dcache_parent :: "ptr \<Rightarrow> 'a dcache_scheme \<Rightarrow> 'a dcache_scheme option" where
  "shrink_dcache_parent parent s =
     Option.bind (select_parent parent s) (\<lambda>(found, s).
     if found = 0 then Some s
     else Option.bind (prune_dcache found s) (\<lambda>s. shrink_dcache_parent parent s))"

declare shrink_dcache_parent.simps [code]

fun select_anon :: "ptr list \<Rightarrow> nat \<Rightarrow> 'a dcache_scheme \<Rightarrow> (nat \<times> 'a dcache_scheme) option" where
  "select_anon [] found s = Some (found, s)"
| "select_anon (this # lp) found s = do {
     (found, s) \<leftarrow> select_dentry this found s;
     select_anon lp found s }"

partial_function (option) shrink_dcache_anon :: "ptr \<Rightarrow> 'a dcache_scheme \<Rightarrow> 'a dcache_scheme option" where
  "shrink_dcache_anon sb s =
     Option.bind (spin_lock Dcache_lock s) (\<lambda>s.
     Option.bind (supers s sb) (\<lambda>b.
     Option.bind (select_anon (s_anon b) 0 s) (\<lambda>(found, s).
     Option.bind (spin_unlock Dcache_lock s) (\<lambda>s.
     Option.bind (prune_dcache found s) (\<lambda>s.
     if found = 0 then Some s else shrink_dcache_anon sb s)))))"

declare shrink_dcache_anon.simps [code]

definition d_invalidate :: "ptr \<Rightarrow> 'a dcache_scheme \<Rightarrow> (int \<times> 'a dcache_scheme) option" where
  "d_invalidate dentry s = do {
     s \<leftarrow> spin_lock Dcache_lock s;
     d \<leftarrow> dentries s dentry;
     if d_unhashed d then do {
       s \<leftarrow> spin_unlock Dcache_lock s;
       Some (0, s) }
     else do {
       s \<leftarrow> (if d_subdirs d \<noteq> [] then do {
               s \<leftarrow> spin_unlock Dcache_lock s;
               s \<leftarrow> shrink_dcache_parent dentry s;
               spin_lock Dcache_lock s }
             else Some s);
       s \<leftarrow> spin_lock (D_lock dentry) s;
       d \<leftarrow> dentries s dentry;
       busy \<leftarrow> (if d_count d > 1 \<and> d_inode d \<noteq> NULL
                then do { i \<leftarrow> inodes s (d_inode d); Some (S_ISDIR (i_mode i)) }
                else Some False);
       if busy then do {
         s \<leftarrow> spin_unlock (D_lock dentry) s;
         s \<leftarrow> spin_unlock Dcache_lock s;
         Some (- EBUSY, s) }
       else do {
         s \<leftarrow> d_drop_locked dentry s;
         s \<leftarrow> spin_unlock (D_lock dentry) s;
         s \<leftarrow> spin_unlock Dcache_lock s;
         Some (0, s) } } }"

partial_function (option) is_subdir_loop :: "ptr \<Rightarrow> ptr \<Rightarrow> 'a dcache_scheme \<Rightarrow> bool option" where
  "is_subdir_loop new_dentry old_dentry s =
     (if new_dentry \<noteq> old_dentry then
        Option.bind (dentries s new_dentry) (\<lambda>d.
        if d_parent d = new_dentry then Some False
        else is_subdir_loop (d_parent d) old_dentry s)
      else Some True)"

declare is_subdir_loop.simps [code]

definition is_subdir :: "ptr \<Rightarrow> ptr \<Rightarrow> 'a dcache_scheme \<Rightarrow> bool option" where
  "is_subdir new_dentry old_dentry s = do {
     seq \<leftarrow> read_seqbegin s;
     is_subdir_loop new_dentry old_dentry s }"

definition atomic_dec_count :: "ptr \<Rightarrow> 'a dcache_scheme \<Rightarrow> 'a dcache_scheme option" where
  "atomic_dec_count dentry s = upd_dentry dentry (\<lambda>d. d\<lparr>d_count := d_count d - 1\<rparr>) s"

partial_function (option) d_genocide_resume ::
  "ptr \<Rightarrow> ptr \<Rightarrow> ptr list \<Rightarrow> 'a dcache_scheme \<Rightarrow> 'a dcache_scheme option" where
  "d_genocide_resume root this_parent nxt s =
     (case nxt of
        dentry # nxt \<Rightarrow>
          Option.bind (dentries s dentry) (\<lambda>d.
          if d_unhashed d \<or> d_inode d = NULL then d_genocide_resume root this_parent nxt s
          else if d_subdirs d \<noteq> [] then d_genocide_resume root dentry (d_subdirs d) s
          else Option.bind (atomic_dec_count dentry s) (\<lambda>s. d_genocide_resume root this_parent nxt s))
      | [] \<Rightarrow>
          if this_parent \<noteq> root then
            Option.bind (d_child_next this_parent s) (\<lambda>(up, nxt).
            Option.bind (atomic_dec_count this_parent s) (\<lambda>s.
            d_genocide_resume root up nxt s))
          else Some s)"

declare d_genocide_resume.simps [code]

definition d_genocide :: "ptr \<Rightarrow> 'a dcache_scheme \<Rightarrow> 'a dcache_scheme option" where
  "d_genocide root s = do {
     s \<leftarrow> spin_lock Dcache_lock s;
     r \<leftarrow> dentries s root;
     s \<leftarrow> d_genocide_resume root root (d_subdirs r) s;
     spin_unlock Dcache_lock s }"

section \<open>Notions for the specification\<close>

text \<open>The bucket a dentry belongs to, and the name it stands for.\<close>

abbreviation bucket :: "'a dcache_scheme \<Rightarrow> dentry \<Rightarrow> nat" where
  "bucket s d \<equiv> d_hash (d_parent d) (q_hash (d_name d)) s"

abbreviation nm_of :: "dentry \<Rightarrow> string" where
  "nm_of d \<equiv> q_name (d_name d)"

text \<open>The references to a dentry that its children do not account for.\<close>

definition ext_refs :: "dentry \<Rightarrow> int" where
  "ext_refs d = d_count d - int (length (d_subdirs d))"

definition dentry_ok :: "'a dcache_scheme \<Rightarrow> ptr \<Rightarrow> dentry \<Rightarrow> bool" where
  "dentry_ok s p d \<longleftrightarrow> 0 < p \<and> p < next_addr s \<and>
     (\<exists>q. dentries s (d_parent d) = Some q \<and> (d_parent d \<noteq> p \<longrightarrow> p \<in> set (d_subdirs q))) \<and>
     distinct (d_subdirs d) \<and> 0 \<le> ext_refs d \<and>
     (\<forall>c\<in>set (d_subdirs d). c \<noteq> p \<and> (\<exists>e. dentries s c = Some e \<and> d_parent e = p)) \<and>
     (d_inode d \<noteq> 0 \<longrightarrow> (\<exists>i. inodes s (d_inode d) = Some i \<and> p \<in> set (i_dentry i))) \<and>
     (\<not> d_unhashed d \<longrightarrow> p \<in> set (dentry_hashtable s (bucket s d)) \<and>
        q_hash (d_name d) = full_name_hash (nm_of d) (length (nm_of d))) \<and>
     q_len (d_name d) = length (nm_of d)"

definition hash_ok :: "'a dcache_scheme \<Rightarrow> bool" where
  "hash_ok s \<longleftrightarrow>
     (\<forall>b p. p \<in> set (dentry_hashtable s b) \<longrightarrow>
        (\<exists>d. dentries s p = Some d \<and> \<not> d_unhashed d \<and> b = bucket s d)) \<and>
     (\<forall>b. distinct (dentry_hashtable s b)) \<and>
     (\<forall>p q d e. dentries s p = Some d \<and> dentries s q = Some e \<and> \<not> d_unhashed d \<and> \<not> d_unhashed e \<and>
        d_parent d = d_parent e \<and> nm_of d = nm_of e \<longrightarrow> p = q)"

definition alias_ok :: "'a dcache_scheme \<Rightarrow> ptr \<Rightarrow> inode \<Rightarrow> bool" where
  "alias_ok s p i \<longleftrightarrow> distinct (i_dentry i) \<and> int (length (i_dentry i)) \<le> i_count i \<and>
     (\<forall>q\<in>set (i_dentry i). \<exists>d. dentries s q = Some d \<and> d_inode d = p)"

definition dcache_wf :: "'a dcache_scheme \<Rightarrow> bool" where
  "dcache_wf s \<longleftrightarrow> icache_wf s \<and> even (rename_seq s) \<and> finite (dom (dentries s)) \<and>
     (\<forall>p d. dentries s p = Some d \<longrightarrow> dentry_ok s p d) \<and> hash_ok s \<and>
     (\<forall>p i. inodes s p = Some i \<longrightarrow> alias_ok s p i) \<and>
     (\<forall>q b. supers s q = Some b \<longrightarrow> s_anon b = []) \<and>
     distinct (dentry_unused s) \<and> set (dentry_unused s) \<subseteq> dom (dentries s)"

text \<open>
  \<open>killed\<close>: the second state is the first after the dentry \<open>p\<close> without children has been unlinked
  from its parent, its hash chain, its inode and the unused list, and freed, and one reference
  to the inode has been dropped.
\<close>

definition killed :: "ptr \<Rightarrow> dentry \<Rightarrow> 'a dcache_scheme \<Rightarrow> 'a dcache_scheme \<Rightarrow> bool" where
  "killed p d s s' \<longleftrightarrow> icache_wf s' \<and> next_addr s' = next_addr s \<and> rename_seq s' = rename_seq s \<and>
     d_hash_shift s' = d_hash_shift s \<and> d_hash_mask s' = d_hash_mask s \<and>
     (\<exists>q. dentries s (d_parent d) = Some q \<and>
        dentries s' = (dentries s)(d_parent d \<mapsto> q\<lparr>d_subdirs := removeAll p (d_subdirs q)\<rparr>, p := None)) \<and>
     dentry_hashtable s' = (\<lambda>b. removeAll p (dentry_hashtable s b)) \<and>
     dentry_unused s' = removeAll p (dentry_unused s) \<and>
     sbs_same (supers s) (supers s') \<and>
     (if d_inode d = 0 then inodes s' = inodes s
      else \<exists>i. inodes s (d_inode d) = Some i \<and>
        (if inodes s' (d_inode d) = None
         then i_count i = 1 \<and> inodes s' = (inodes s)(d_inode d := None)
         else inodes s' = (inodes s)(d_inode d \<mapsto>
                i\<lparr>i_dentry := removeAll p (i_dentry i), i_count := i_count i - 1\<rparr>)))"

definition kill_step :: "ptr \<Rightarrow> dentry \<Rightarrow> 'a dcache_scheme \<Rightarrow> 'a dcache_scheme \<Rightarrow> bool" where
  "kill_step p d s s' \<longleftrightarrow>
     dcache_wf s \<and> dentries s p = Some d \<and> d_subdirs d = [] \<and> killed p d s s'"

text \<open>
  What \<open>dput\<close> on \<open>p\<close> promises: every dentry that is left had one external reference less if it is \<open>p\<close>
  and as many as before otherwise, and no dentry that still has external references is gone.
\<close>

definition dentry_same :: "dentry \<Rightarrow> dentry \<Rightarrow> bool" where
  "dentry_same e e' \<longleftrightarrow> d_inode e' = d_inode e \<and> d_parent e' = d_parent e \<and> d_name e' = d_name e \<and>
     d_op e' = d_op e \<and> d_sb e' = d_sb e \<and> d_fsdata e' = d_fsdata e \<and> d_mounted e' = d_mounted e \<and>
     d_iname e' = d_iname e \<and> d_external e' = d_external e"

definition dput_post :: "ptr \<Rightarrow> 'a dcache_scheme \<Rightarrow> 'a dcache_scheme \<Rightarrow> bool" where
  "dput_post p s s' \<longleftrightarrow> dcache_wf s' \<and> held s' = {} \<and> next_addr s' = next_addr s \<and>
     sbs_same (supers s) (supers s') \<and>
     (\<forall>c e'. dentries s' c = Some e' \<longrightarrow> (\<exists>e. dentries s c = Some e \<and> dentry_same e e' \<and>
        ext_refs e' = ext_refs e - of_bool (c = p))) \<and>
     (\<forall>c e. dentries s c = Some e \<and> 0 < ext_refs e - of_bool (c = p) \<longrightarrow> c \<in> dom (dentries s'))"

text \<open>Two states of a dentry with the same place in the tree and in the hash table.\<close>

definition dlink :: "dentry \<Rightarrow> dentry \<Rightarrow> bool" where
  "dlink x y \<longleftrightarrow> d_parent y = d_parent x \<and> d_name y = d_name x \<and> d_unhashed y = d_unhashed x"

section \<open>The invariant\<close>

lemma dcache_wfD:
  assumes "dcache_wf s"
  shows "icache_wf s" "even (rename_seq s)" "finite (dom (dentries s))"
    "dentries s p = Some d \<Longrightarrow> dentry_ok s p d" "hash_ok s"
    "inodes s q = Some i \<Longrightarrow> alias_ok s q i" "supers s r = Some b \<Longrightarrow> s_anon b = []"
    "distinct (dentry_unused s)" "set (dentry_unused s) \<subseteq> dom (dentries s)"
  using assms by (simp_all add: dcache_wf_def)

lemma dcache_wf_fresh: "dcache_wf s \<Longrightarrow> dentries s (next_addr s) = None"
  by (cases "dentries s (next_addr s)") (auto dest: dcache_wfD(4) simp: dentry_ok_def)

lemma upd_dentry_Some [simp]:
  "dentries s p = Some d \<Longrightarrow> upd_dentry p f s = Some (dentries_update (\<lambda>m. m(p \<mapsto> f d)) s)"
  by (simp add: upd_dentry_def)

lemma d_hash_cong:
  assumes "d_hash_shift s' = d_hash_shift s" and "d_hash_mask s' = d_hash_mask s"
  shows "d_hash a h s' = d_hash a h s"
  using assms by (simp add: d_hash_def)

lemma d_hash_frame [simp]:
  "d_hash a h (dentries_update f1 s) = d_hash a h s"
  "d_hash a h (dentry_hashtable_update f2 s) = d_hash a h s"
  "d_hash a h (dentry_unused_update f3 s) = d_hash a h s"
  "d_hash a h (nr_dentry_update f4 s) = d_hash a h s"
  "d_hash a h (nr_unused_dentries_update f5 s) = d_hash a h s"
  "d_hash a h (rename_seq_update f6 s) = d_hash a h s"
  "d_hash a h (ticks_update f7 s) = d_hash a h s"
  "d_hash a h (inodes_update f8 s) = d_hash a h s"
  "d_hash a h (supers_update f9 s) = d_hash a h s"
  "d_hash a h (held_update f10 s) = d_hash a h s"
  "d_hash a h (next_addr_update f11 s) = d_hash a h s"
  "d_hash a h (inode_in_use_update f12 s) = d_hash a h s"
  "d_hash a h (inode_unused_update f13 s) = d_hash a h s"
  "d_hash a h (nr_inodes_update f14 s) = d_hash a h s"
  "d_hash a h (nr_unused_inodes_update f15 s) = d_hash a h s"
  "d_hash a h (last_ino_update f16 s) = d_hash a h s"
  "d_hash a h (inode_hashtable_update f17 s) = d_hash a h s"
  by (rule d_hash_cong; simp)+

text \<open>What \<open>icache_step\<close> leaves alone.\<close>

lemma icache_step_dcache:
  assumes "icache_step s s'"
  shows "dentries s' = dentries s" "dentry_hashtable s' = dentry_hashtable s"
    "dentry_unused s' = dentry_unused s" "rename_seq s' = rename_seq s"
    "d_hash_shift s' = d_hash_shift s" "d_hash_mask s' = d_hash_mask s"
    "nr_dentry s' = nr_dentry s" "nr_unused_dentries s' = nr_unused_dentries s"
  by (rule trans [OF arg_cong [OF assms [unfolded icache_step_def]]], simp)+


section \<open>Removing a dentry keeps the invariant\<close>

lemma sb_sameD:
  assumes "sb_same b c"
  shows "s_anon c = s_anon b" "s_root c = s_root b" "s_flags c = s_flags b" "s_op c = s_op b"
    "s_type c = s_type b" "s_umount c = s_umount b" "s_lock c = s_lock b" "s_count c = s_count b"
    "s_active c = s_active b" "s_dev c = s_dev b" "s_files c = s_files b"
  by (rule trans [OF arg_cong [OF assms [unfolded sb_same_def]]], simp)+

lemma sbs_sameD:
  assumes "sbs_same m m'" and "m' q = Some c"
  obtains b where "m q = Some b" "sb_same b c"
  using assms by (force simp: sbs_same_def option_rel_Some2 dest: spec [of _ q])

lemma sbs_same_anon:
  assumes "sbs_same m m'" and "\<And>q b. m q = Some b \<Longrightarrow> s_anon b = []" and "m' q = Some b"
  shows "s_anon b = []"
proof -
  obtain a where "m q = Some a" "sb_same a b" using sbs_sameD [OF assms(1,3)] by blast
  then show ?thesis using assms(2) sb_sameD(1) by metis
qed


lemma dentry_okD:
  assumes "dentry_ok s p d"
  shows "0 < p" "p < next_addr s" "\<exists>q. dentries s (d_parent d) = Some q \<and> (d_parent d \<noteq> p \<longrightarrow> p \<in> set (d_subdirs q))"
    "distinct (d_subdirs d)" "0 \<le> ext_refs d"
    "c \<in> set (d_subdirs d) \<Longrightarrow> c \<noteq> p \<and> (\<exists>e. dentries s c = Some e \<and> d_parent e = p)"
    "d_inode d \<noteq> 0 \<Longrightarrow> \<exists>i. inodes s (d_inode d) = Some i \<and> p \<in> set (i_dentry i)"
    "\<not> d_unhashed d \<Longrightarrow> p \<in> set (dentry_hashtable s (bucket s d))"
    "\<not> d_unhashed d \<Longrightarrow> q_hash (d_name d) = full_name_hash (nm_of d) (length (nm_of d))"
    "q_len (d_name d) = length (nm_of d)"
  using assms unfolding dentry_ok_def by blast+

lemma length_removeAll_distinct:
  assumes "distinct xs" and "p \<in> set xs"
  shows "int (length (removeAll p xs)) = int (length xs) - 1"
proof -
  have "length (removeAll p xs) = length xs - 1" using assms by (metis distinct_remove1_removeAll length_remove1)
  moreover have "1 \<le> length xs" using assms(2) by (cases xs) auto
  ultimately show ?thesis by (metis of_nat_1 of_nat_diff)
qed

lemma d_unhashed_simps [simp]:
  "d_unhashed (d\<lparr>d_subdirs := x\<rparr>) = d_unhashed d" "d_unhashed (d\<lparr>d_count := n\<rparr>) = d_unhashed d"
  "d_unhashed (d\<lparr>d_inode := r\<rparr>) = d_unhashed d" "d_unhashed (d\<lparr>d_op := o'\<rparr>) = d_unhashed d"
  "d_unhashed (d\<lparr>d_mounted := n\<rparr>) = d_unhashed d" "d_unhashed (d\<lparr>d_parent := r\<rparr>) = d_unhashed d"
  "d_unhashed (d\<lparr>d_sb := r\<rparr>) = d_unhashed d" "d_unhashed (d\<lparr>d_name := z\<rparr>) = d_unhashed d"
  by (simp_all add: d_unhashed_def)

lemma kill_stepD:
  assumes "kill_step p d s s'"
  shows "dcache_wf s" "dentries s p = Some d" "d_subdirs d = []" "killed p d s s'"
  using assms by (simp_all add: kill_step_def)

lemma kill_step_heap:
  assumes "kill_step p d s s'"
  obtains q where "dentries s (d_parent d) = Some q"
    "dentries s' = (dentries s)(d_parent d \<mapsto> q\<lparr>d_subdirs := removeAll p (d_subdirs q)\<rparr>, p := None)"
  using kill_stepD(4) [OF assms] unfolding killed_def by blast

lemma subdirs_removeAll_id: "p \<notin> set (d_subdirs e) \<Longrightarrow> e\<lparr>d_subdirs := removeAll p (d_subdirs e)\<rparr> = e"
  by (simp add: removeAll_id)

lemma two_le_length: "a \<in> set xs \<Longrightarrow> b \<in> set xs \<Longrightarrow> a \<noteq> b \<Longrightarrow> 2 \<le> length xs"
  using card_mono [of "set xs" "{a, b}"] card_length [of xs] by simp

lemma killed_live:
  assumes k: "kill_step p d s s'" and "dentries s c = Some e" and "c \<noteq> p"
  shows "dentries s' c = Some (e\<lparr>d_subdirs := removeAll p (d_subdirs e)\<rparr>)" "d_parent e \<noteq> p"
proof -
  note wf = kill_stepD(1) [OF k] and p = kill_stepD(2) [OF k]
  note ok = dcache_wfD(4) [OF wf assms(2)]
  obtain q where q: "dentries s (d_parent d) = Some q"
    "dentries s' = (dentries s)(d_parent d \<mapsto> q\<lparr>d_subdirs := removeAll p (d_subdirs q)\<rparr>, p := None)"
    by (rule kill_step_heap [OF k])
  show "dentries s' c = Some (e\<lparr>d_subdirs := removeAll p (d_subdirs e)\<rparr>)"
  proof (cases "c = d_parent d")
    case True then show ?thesis using q assms by simp
  next
    case False
    have "p \<notin> set (d_subdirs e)" using dentry_okD(6) [OF ok, of p] p False by auto
    then show ?thesis using q assms False by (simp add: subdirs_removeAll_id)
  qed
  show "d_parent e \<noteq> p"
    using dentry_okD(3) [OF ok] p kill_stepD(3) [OF k] \<open>c \<noteq> p\<close> by auto
qed

lemma killed_dentries:
  assumes k: "kill_step p d s s'" and "dentries s' c = Some e'"
  obtains e where "c \<noteq> p" "dentries s c = Some e" "e' = e\<lparr>d_subdirs := removeAll p (d_subdirs e)\<rparr>"
proof -
  obtain q where q: "dentries s (d_parent d) = Some q"
    "dentries s' = (dentries s)(d_parent d \<mapsto> q\<lparr>d_subdirs := removeAll p (d_subdirs q)\<rparr>, p := None)"
    by (rule kill_step_heap [OF k])
  with assms(2) have "c \<noteq> p" by auto
  moreover obtain e where "dentries s c = Some e" using q assms(2) \<open>c \<noteq> p\<close> by (auto split: if_splits)
  ultimately show thesis using that killed_live(1) [OF k, of c e] assms(2) by simp
qed

lemma killed_inode:
  assumes k: "kill_step p d s s'" and "dentries s c = Some e" and "c \<noteq> p" and "d_inode e \<noteq> 0"
  shows "\<exists>i. inodes s' (d_inode e) = Some i \<and> c \<in> set (i_dentry i)"
proof -
  note wf = kill_stepD(1) [OF k]
  obtain i where i: "inodes s (d_inode e) = Some i" "c \<in> set (i_dentry i)"
    using dentry_okD(7) [OF dcache_wfD(4) [OF wf assms(2)] assms(4)] by blast
  show ?thesis
  proof (cases "d_inode e = d_inode d")
    case False
    then have "inodes s' (d_inode e) = inodes s (d_inode e)"
      using kill_stepD(4) [OF k] unfolding killed_def by (auto split: if_splits)
    with i show ?thesis by simp
  next
    case True
    then have "p \<in> set (i_dentry i)"
      using dentry_okD(7) [OF dcache_wfD(4) [OF wf kill_stepD(2) [OF k]]] i assms(4) by auto
    with i assms(3) have "2 \<le> length (i_dentry i)" by (intro two_le_length [of p _ c]) auto
    with dcache_wfD(6) [OF wf i(1)] have "i_count i \<noteq> 1" by (auto simp: alias_ok_def)
    then show ?thesis
      using kill_stepD(4) [OF k] i True assms(3,4) unfolding killed_def by (auto split: if_splits)
  qed
qed

lemma killed_dentry_ok:
  assumes k: "kill_step p d s s'" and c: "dentries s' c = Some e'"
  shows "dentry_ok s' c e'"
proof -
  note wf = kill_stepD(1) [OF k]
  obtain e where e: "c \<noteq> p" "dentries s c = Some e" "e' = e\<lparr>d_subdirs := removeAll p (d_subdirs e)\<rparr>"
    by (rule killed_dentries [OF k c])
  note ok = dcache_wfD(4) [OF wf e(2)]
  note K = kill_stepD(4) [OF k, unfolded killed_def]
  have "bucket s' e' = bucket s e" using K e(3) by (simp add: d_hash_cong [of s' s])
  moreover obtain q where "dentries s (d_parent e) = Some q" "d_parent e \<noteq> c \<longrightarrow> c \<in> set (d_subdirs q)"
    using dentry_okD(3) [OF ok] by blast
  then have "\<exists>q. dentries s' (d_parent e) = Some q \<and> (d_parent e \<noteq> c \<longrightarrow> c \<in> set (d_subdirs q))"
    using killed_live(1) [OF k, of "d_parent e" q] killed_live(2) [OF k e(2,1)] e(1) by auto
  moreover have "0 \<le> ext_refs e'"
    using dentry_okD(5) [OF ok] e(3) length_removeAll_less_eq [of p "d_subdirs e"]
    unfolding ext_refs_def by (simp del: length_removeAll_less_eq)
  moreover have "c' \<noteq> c \<and> (\<exists>x. dentries s' c' = Some x \<and> d_parent x = c)"
    if "c' \<in> set (d_subdirs e')" for c'
    using that dentry_okD(6) [OF ok, of c'] killed_live(1) [OF k, of c'] e(3) by auto
  moreover have "d_inode e \<noteq> 0 \<longrightarrow> (\<exists>i. inodes s' (d_inode e) = Some i \<and> c \<in> set (i_dentry i))"
    using killed_inode [OF k e(2,1)] by blast
  ultimately show ?thesis
    using K e(1,3) dentry_okD(1,2,4,8-10) [OF ok] by (auto simp: dentry_ok_def distinct_removeAll)
qed


lemma hash_okD:
  assumes "hash_ok s"
  shows "distinct (dentry_hashtable s b)"
    "p \<in> set (dentry_hashtable s b) \<Longrightarrow> \<exists>d. dentries s p = Some d \<and> \<not> d_unhashed d \<and> b = bucket s d"
    "dentries s p = Some d \<Longrightarrow> dentries s q = Some e \<Longrightarrow> \<not> d_unhashed d \<Longrightarrow> \<not> d_unhashed e \<Longrightarrow>
       d_parent d = d_parent e \<Longrightarrow> nm_of d = nm_of e \<Longrightarrow> p = q"
  using assms unfolding hash_ok_def by blast+

lemma hash_ok_transfer:
  assumes h: "hash_ok s" and "d_hash_shift s' = d_hash_shift s" and "d_hash_mask s' = d_hash_mask s"
    and tab: "\<And>b. set (dentry_hashtable s' b) \<subseteq> set (dentry_hashtable s b)" and dist: "\<And>b. distinct (dentry_hashtable s' b)"
    and fwd: "\<And>c b x. c \<in> set (dentry_hashtable s' b) \<Longrightarrow> dentries s c = Some x \<Longrightarrow> \<exists>y. dentries s' c = Some y \<and> dlink x y"
    and bwd: "\<And>c y. dentries s' c = Some y \<Longrightarrow> \<not> d_unhashed y \<Longrightarrow> \<exists>x. dentries s c = Some x \<and> dlink x y"
  shows "hash_ok s'"
  unfolding hash_ok_def
proof (intro conjI allI impI)
  fix n c
  assume c: "c \<in> set (dentry_hashtable s' n)"
  obtain x where x: "dentries s c = Some x" "\<not> d_unhashed x" "n = bucket s x" using hash_okD(2) [OF h] tab c by blast
  obtain y where y: "dentries s' c = Some y" "dlink x y" using fwd [OF c x(1)] by blast
  have "bucket s' y = bucket s x" using y(2) assms(2,3) d_hash_cong [of s' s] by (simp add: dlink_def)
  with x y show "\<exists>y. dentries s' c = Some y \<and> \<not> d_unhashed y \<and> n = bucket s' y" by (auto simp: dlink_def)
next
  fix c1 c2 e1 e2
  assume c: "dentries s' c1 = Some e1 \<and> dentries s' c2 = Some e2 \<and> \<not> d_unhashed e1 \<and> \<not> d_unhashed e2 \<and>
    d_parent e1 = d_parent e2 \<and> nm_of e1 = nm_of e2"
  obtain x1 where 1: "dentries s c1 = Some x1" "dlink x1 e1" using bwd [of c1 e1] c by blast
  obtain x2 where 2: "dentries s c2 = Some x2" "dlink x2 e2" using bwd [of c2 e2] c by blast
  show "c1 = c2" by (rule hash_okD(3) [OF h 1(1) 2(1)]) (use c 1(2) 2(2) in \<open>simp_all add: dlink_def\<close>)
qed (rule dist)

lemma killed_hash_ok:
  assumes k: "kill_step p d s s'"
  shows "hash_ok s'"
proof -
  note h = dcache_wfD(5) [OF kill_stepD(1) [OF k]] and K = kill_stepD(4) [OF k, unfolded killed_def]
  have T: "dentry_hashtable s' = (\<lambda>b. removeAll p (dentry_hashtable s b))" using K by blast
  show ?thesis
  proof (rule hash_ok_transfer [OF h])
    fix b
    show "distinct (dentry_hashtable s' b)" by (simp add: T distinct_removeAll hash_okD(1) [OF h])
  next
    fix c y
    assume c: "dentries s' c = Some y"
    obtain x where "dentries s c = Some x" "y = x\<lparr>d_subdirs := removeAll p (d_subdirs x)\<rparr>"
      by (rule killed_dentries [OF k c])
    then show "\<exists>x. dentries s c = Some x \<and> dlink x y" by (simp add: dlink_def)
  qed (use K killed_live(1) [OF k] in \<open>auto simp: T dlink_def\<close>)
qed

lemma killed_alias_ok:
  assumes k: "kill_step p d s s'" and q: "inodes s' q = Some i'"
  shows "alias_ok s' q i'"
proof -
  note wf = kill_stepD(1) [OF k] and p = kill_stepD(2) [OF k]
  note K = kill_stepD(4) [OF k, unfolded killed_def]
  have live: "\<exists>e. dentries s' c = Some e \<and> d_inode e = q"
    if "inodes s q = Some i" "c \<in> set (i_dentry i)" "c \<noteq> p" for i c
    using dcache_wfD(6) [OF wf that(1)] that(2) killed_live(1) [OF k _ that(3)]
    by (force simp: alias_ok_def)
  show ?thesis
  proof (cases "q = d_inode d \<and> d_inode d \<noteq> 0")
    case True
    then obtain i where i: "inodes s q = Some i"
      "i' = i\<lparr>i_dentry := removeAll p (i_dentry i), i_count := i_count i - 1\<rparr>"
      using K q by (auto split: if_splits)
    have "p \<in> set (i_dentry i)" using dentry_okD(7) [OF dcache_wfD(4) [OF wf p]] True i(1) by auto
    then show ?thesis
      using dcache_wfD(6) [OF wf i(1)] i live [OF i(1)]
      by (auto simp: alias_ok_def distinct_removeAll length_removeAll_distinct)
  next
    case False
    then have i: "inodes s q = Some i'" using K q by (auto split: if_splits)
    have "0 < q" using inode_live [OF dcache_wfD(1) [OF wf] i] by blast
    have "c \<noteq> p" if "c \<in> set (i_dentry i')" for c
      using dcache_wfD(6) [OF wf i] that p False \<open>0 < q\<close> by (auto simp: alias_ok_def)
    then show ?thesis
      using dcache_wfD(6) [OF wf i] live [OF i] by (auto simp: alias_ok_def)
  qed
qed

lemma killed_wf:
  assumes k: "kill_step p d s s'"
  shows "dcache_wf s'"
proof -
  note wf = kill_stepD(1) [OF k] and K = kill_stepD(4) [OF k, unfolded killed_def]
  obtain q where "dentries s (d_parent d) = Some q"
    "dentries s' = (dentries s)(d_parent d \<mapsto> q\<lparr>d_subdirs := removeAll p (d_subdirs q)\<rparr>, p := None)"
    by (rule kill_step_heap [OF k])
  then have dom: "dom (dentries s') = dom (dentries s) - {p}" by auto
  have "s_anon b = []" if "supers s' q = Some b" for q b
    by (rule sbs_same_anon [where m = "supers s" and m' = "supers s'" and q = q])
      (use K that dcache_wfD(7) [OF wf] in blast)+
  moreover have "dentry_unused s' = removeAll p (dentry_unused s)" "rename_seq s' = rename_seq s" "icache_wf s'"
    using K by blast+
  ultimately show ?thesis
    using dcache_wfD(2,3,8,9) [OF wf] dom killed_dentry_ok [OF k] killed_hash_ok [OF k] killed_alias_ok [OF k]
    by (auto simp: dcache_wf_def distinct_removeAll)
qed

section \<open>Dropping a reference\<close>

lemma icache_wf_frame [simp]:
  "icache_wf (dentries_update f1 s) = icache_wf s"
  "icache_wf (dentry_hashtable_update f2 s) = icache_wf s"
  "icache_wf (dentry_unused_update f3 s) = icache_wf s"
  "icache_wf (nr_dentry_update f4 s) = icache_wf s"
  "icache_wf (nr_unused_dentries_update f5 s) = icache_wf s"
  "icache_wf (rename_seq_update f6 s) = icache_wf s"
  "icache_wf (ticks_update f7 s) = icache_wf s"
  "icache_wf (held_update f8 s) = icache_wf s"
  by (simp_all add: icache_wf_def inode_ok_def super_ok_def)

lemma d_lru_del_eq:
  "d_lru_del p s = s\<lparr>dentry_unused := removeAll p (dentry_unused s),
     nr_unused_dentries := nr_unused_dentries s - of_bool (p \<in> set (dentry_unused s))\<rparr>"
  by (simp add: d_lru_del_def removeAll_id)

lemma dentry_parent_pos:
  assumes "dcache_wf s" and "dentries s p = Some d"
  shows "0 < d_parent d" "0 < p"
  using dentry_okD(1,3) [OF dcache_wfD(4) [OF assms]] dentry_okD(1) dcache_wfD(4) [OF assms(1)] by metis+

lemma iput_alias:
  assumes wf: "dcache_wf s" and d: "dentries s p = Some d" and i: "inodes s (d_inode d) = Some i" "d_inode d \<noteq> 0"
    and t: "icache_wf t = icache_wf s" "held t = {}" "inodes t = inodes s" "supers t = supers s"
  obtains s' where "iput (d_inode d) (t\<lparr>inodes := (inodes t)(d_inode d \<mapsto> i\<lparr>i_dentry := removeAll p (i_dentry i)\<rparr>)\<rparr>) = Some s'"
    "icache_step t s'" "icache_wf s'" "sbs_same (supers s) (supers s')"
    "if inodes s' (d_inode d) = None then i_count i = 1 \<and> inodes s' = (inodes s)(d_inode d := None)
     else inodes s' = (inodes s)(d_inode d \<mapsto> i\<lparr>i_dentry := removeAll p (i_dentry i), i_count := i_count i - 1\<rparr>)"
proof -
  let ?j = "i\<lparr>i_dentry := removeAll p (i_dentry i)\<rparr>"
  let ?t = "t\<lparr>inodes := (inodes t)(d_inode d \<mapsto> ?j)\<rparr>"
  note iwf = dcache_wfD(1) [OF wf]
  obtain b where b: "supers s (i_sb i) = Some b" "quiet i" by (rule inode_live [OF iwf i(1)])
  have "p \<in> set (i_dentry i)" using dentry_okD(7) [OF dcache_wfD(4) [OF wf d] i(2)] i(1) by auto
  then have "1 \<le> length (i_dentry i)" by (cases "i_dentry i") auto
  with dcache_wfD(6) [OF wf i(1)] have c: "0 < i_count i" by (auto simp: alias_ok_def)
  have "icache_wf ?t"
    by (rule icache_wf_upd_inode [where i = i]) (use t iwf i b c in \<open>simp_all add: quiet_def\<close>)
  then obtain s' where s': "iput (d_inode d) ?t = Some s'" "icache_step ?t s'" "icache_wf s'"
    "sbs_same (supers ?t) (supers s')"
    "inodes s' = (if i_count ?j = 1 \<and> \<not> kept ?j b then (inodes ?t)(d_inode d := None)
         else (inodes ?t)(d_inode d \<mapsto> ?j\<lparr>i_count := i_count ?j - 1\<rparr>))"
    by (rule iput_shape [of ?t "d_inode d" ?j b]) (use t b c in simp_all)
  show thesis
    by (rule that [OF s'(1) _ s'(3)]) (use s'(2,4,5) t in \<open>simp_all add: icache_step_def split: if_splits\<close>)
qed

lemma dentry_upd_same:
  "d_subdirs e = x \<Longrightarrow> e\<lparr>d_subdirs := x\<rparr> = e" "d_inode e = r \<Longrightarrow> e\<lparr>d_inode := r\<rparr> = e"
  by auto

lemma dput_kill_killed:
  assumes wf: "dcache_wf s" and p: "dentries s p = Some d" and sub: "d_subdirs d = []"
    and t: "t = s\<lparr>dentries := (dentries s)(p \<mapsto> d\<lparr>d_count := 0, d_flags := fl\<rparr>),
      dentry_hashtable := (\<lambda>b. removeAll p (dentry_hashtable s b)), held := {Dcache_lock, D_lock p}\<rparr>"
  obtains s' where "dput_kill p t = Some (if d_parent d = p then None else Some (d_parent d), s')"
    "kill_step p d s s'" "held s' = {}"
proof -
  obtain q where q: "dentries s (d_parent d) = Some q" using dentry_okD(3) [OF dcache_wfD(4) [OF wf p]] by blast
  have pos: "d_parent d \<noteq> 0" "p \<noteq> 0" using dentry_parent_pos [OF wf p] by simp_all
  define n where "n = nr_unused_dentries s - of_bool (p \<in> set (dentry_unused s))"
  define u where "u = s\<lparr>dentries := (dentries s)(d_parent d \<mapsto> q\<lparr>d_subdirs := removeAll p (d_subdirs q)\<rparr>,
      p \<mapsto> d\<lparr>d_count := 0, d_flags := fl, d_inode := 0\<rparr>),
    dentry_hashtable := (\<lambda>b. removeAll p (dentry_hashtable s b)),
    dentry_unused := removeAll p (dentry_unused s), nr_unused_dentries := n, nr_dentry := nr_dentry s - 1, held := {}\<rparr>"
  have lru: "d_lru_del p t = t\<lparr>dentry_unused := removeAll p (dentry_unused s), nr_unused_dentries := n\<rparr>"
    by (simp add: d_lru_del_eq t n_def)
  define w where "w = t\<lparr>dentry_unused := removeAll p (dentry_unused s), nr_unused_dentries := n,
     dentries := (dentries s)(d_parent d \<mapsto> q\<lparr>d_subdirs := removeAll p (d_subdirs q)\<rparr>,
      p \<mapsto> d\<lparr>d_count := 0, d_flags := fl\<rparr>)\<rparr>"
  have child: "d_child_del p (d_lru_del p t) = Some w"
    unfolding lru w_def
    by (cases "d_parent d = p") (use p q sub in \<open>simp_all add: d_child_del_def t pos fun_upd_twist lock_simps dentry_upd_same\<close>)
  have kill: "dput_kill p t = Some (if d_parent d = p then None else Some (d_parent d), v\<lparr>dentries := (dentries v)(p := None)\<rparr>)"
    if "dentry_iput p (w\<lparr>nr_dentry := nr_dentry w - 1\<rparr>) = Some v" "dentries v = dentries u" for v
    using that by (auto simp add: dput_kill_def Let_def child d_free_def u_def)
  let ?v = "u\<lparr>dentries := (dentries u)(p := None)\<rparr>"
  show thesis
  proof (cases "d_inode d = 0")
    case True
    have "dput_kill p t = Some (if d_parent d = p then None else Some (d_parent d), ?v)"
      by (rule kill) (simp_all add: dentry_iput_def True, simp_all add: w_def t u_def True lock_simps dentry_upd_same)
    moreover have "kill_step p d s ?v"
      using wf dcache_wfD(1) [OF wf] p sub q True by (simp add: kill_step_def killed_def u_def d_hash_def)
    ultimately show thesis by (rule that) (simp add: u_def)
  next
    case False
    obtain i where i: "inodes s (d_inode d) = Some i"
      using dentry_okD(7) [OF dcache_wfD(4) [OF wf p] False] by blast
    obtain s' where s': "iput (d_inode d) (u\<lparr>inodes := (inodes u)(d_inode d \<mapsto> i\<lparr>i_dentry := removeAll p (i_dentry i)\<rparr>)\<rparr>) = Some s'"
      "icache_step u s'" "icache_wf s'" "sbs_same (supers s) (supers s')"
      "if inodes s' (d_inode d) = None then i_count i = 1 \<and> inodes s' = (inodes s)(d_inode d := None)
       else inodes s' = (inodes s)(d_inode d \<mapsto> i\<lparr>i_dentry := removeAll p (i_dentry i), i_count := i_count i - 1\<rparr>)"
      by (rule iput_alias [OF wf p i False, of u]) (simp_all add: u_def)
    note f = icache_step_core [OF s'(2)] icache_step_dcache [OF s'(2)]
    have "dentry_iput p (w\<lparr>nr_dentry := nr_dentry w - 1\<rparr>) = Some s'"
      by (simp add: dentry_iput_def False d_alias_del_def w_def t i lock_simps)
        (rule trans [OF arg_cong [of _ _ "iput (d_inode d)"] s'(1)], simp add: u_def)
    then have "dput_kill p t = Some (if d_parent d = p then None else Some (d_parent d), s'\<lparr>dentries := (dentries s')(p := None)\<rparr>)"
      by (rule kill) (rule f)
    moreover have "kill_step p d s (s'\<lparr>dentries := (dentries s')(p := None)\<rparr>)"
      using wf s'(3-5) p sub q i False by (simp add: kill_step_def killed_def f) (simp add: u_def d_hash_def)
    ultimately show thesis by (rule that) (simp add: f u_def)
  qed
qed

lemma d_drop_locked_ok:
  assumes "dentries t p = Some d" and "\<not> d_unhashed d" and "\<And>b. supers t (d_sb d) = Some b \<Longrightarrow> s_anon b = []"
  shows "d_drop_locked p t = Some (t\<lparr>dentries := (dentries t)(p \<mapsto> d\<lparr>d_flags := d_flags d OR DCACHE_UNHASHED\<rparr>),
           dentry_hashtable := (\<lambda>b. removeAll p (dentry_hashtable t b))\<rparr>)"
  using assms by (cases "supers t (d_sb d)") (simp_all add: d_drop_locked_def d_hash_del_def)

lemma dcache_wf_unhashed:
  assumes "dcache_wf s" and "dentries s p = Some d" and "d_unhashed d"
  shows "(\<lambda>b. removeAll p (dentry_hashtable s b)) = dentry_hashtable s"
  using dcache_wfD(5) [OF assms(1)] assms(2,3) unfolding hash_ok_def by (intro ext removeAll_id) fastforce

lemma d_unhashed_referenced [simp]:
  "d_unhashed (d\<lparr>d_flags := f OR 8\<rparr>) = d_unhashed (d\<lparr>d_flags := f\<rparr>)"
  by (simp add: d_unhashed_def bit.conj_disj_distrib2)

text \<open>A change of a dentry in fields the links do not depend on.\<close>

lemma dcache_wf_upd_dentry:
  assumes wf: "dcache_wf s" and p: "dentries s p = Some d" and same: "d_parent e = d_parent d" "d_inode e = d_inode d"
    "d_subdirs e = d_subdirs d" "d_name e = d_name d" "d_unhashed e = d_unhashed d" "0 \<le> ext_refs e"
  shows "dcache_wf (s\<lparr>dentries := (dentries s)(p \<mapsto> e)\<rparr>)"
proof -
  let ?s = "s\<lparr>dentries := (dentries s)(p \<mapsto> e)\<rparr>"
  have b: "bucket ?s e = bucket s d" using same by simp
  have new: "\<exists>y. dentries ?s c = Some y \<and> d_parent y = d_parent x \<and> d_subdirs y = d_subdirs x \<and> d_inode y = d_inode x"
    if "dentries s c = Some x" for c x using that p same by (cases "c = p") simp_all
  have "dentry_ok ?s c x" if x: "dentries ?s c = Some x" for c x
  proof -
    obtain y where y: "dentries s c = Some y" "d_parent x = d_parent y" "d_inode x = d_inode y" "d_subdirs x = d_subdirs y"
      "d_name x = d_name y" "d_unhashed x = d_unhashed y" "0 \<le> ext_refs x"
      using x p same dentry_okD(5) [OF dcache_wfD(4) [OF wf]] by (cases "c = p") simp_all
    note ok = dcache_wfD(4) [OF wf y(1)]
    have "\<exists>q. dentries ?s (d_parent y) = Some q \<and> (d_parent y \<noteq> c \<longrightarrow> c \<in> set (d_subdirs q))"
      using dentry_okD(3) [OF ok] new by metis
    moreover have "\<forall>k\<in>set (d_subdirs y). k \<noteq> c \<and> (\<exists>z. dentries ?s k = Some z \<and> d_parent z = c)"
      using dentry_okD(6) [OF ok] new by metis
    ultimately show ?thesis
      using dentry_okD(1,2,4,7-10) [OF ok] y by (simp add: dentry_ok_def)
  qed
  moreover have "hash_ok ?s"
    by (rule hash_ok_transfer [OF dcache_wfD(5) [OF wf]])
      (use p same hash_okD(1) [OF dcache_wfD(5) [OF wf]] in \<open>auto simp: dlink_def split: if_splits\<close>)
  moreover have "alias_ok ?s q i" if "inodes ?s q = Some i" for q i
  proof -
    from that dcache_wfD(6) [OF wf, of q i] have "alias_ok s q i" by simp
    then show ?thesis unfolding alias_ok_def using new by metis
  qed
  ultimately show ?thesis
    using dcache_wfD(1,2,3,7,8,9) [OF wf] p unfolding dcache_wf_def by auto
qed

lemma killed_dom:
  assumes k: "kill_step p d s s'"
  shows "dom (dentries s') = dom (dentries s) - {p}"
proof -
  obtain q where "dentries s (d_parent d) = Some q"
    "dentries s' = (dentries s)(d_parent d \<mapsto> q\<lparr>d_subdirs := removeAll p (d_subdirs q)\<rparr>, p := None)"
    by (rule kill_step_heap [OF k])
  then show ?thesis by auto
qed

lemma killed_ext_refs:
  assumes k: "kill_step p d s s'" and "dentries s c = Some e" and "c \<noteq> p"
  shows "ext_refs (e\<lparr>d_subdirs := removeAll p (d_subdirs e)\<rparr>) = ext_refs e + of_bool (c = d_parent d)"
proof -
  note wf = kill_stepD(1) [OF k] and p = kill_stepD(2) [OF k]
  have "p \<in> set (d_subdirs e) \<longleftrightarrow> c = d_parent d"
    using dentry_okD(3) [OF dcache_wfD(4) [OF wf p]] dentry_okD(6) [OF dcache_wfD(4) [OF wf assms(2)], of p]
      p assms(2,3) by auto
  moreover have "distinct (d_subdirs e)" by (rule dentry_okD(4) [OF dcache_wfD(4) [OF wf assms(2)]])
  ultimately show ?thesis
    by (cases "c = d_parent d") (simp_all add: ext_refs_def length_removeAll_distinct removeAll_id)
qed

lemma dentry_same_simps [simp]:
  "dentry_same d d" "dentry_same d (d\<lparr>d_count := n\<rparr>)" "dentry_same d (d\<lparr>d_subdirs := cs\<rparr>)"
  "dentry_same d (d\<lparr>d_count := n, d_flags := fl\<rparr>)" "dentry_same d (d\<lparr>d_flags := fl\<rparr>)"
  by (simp_all add: dentry_same_def)

lemma dentry_same_trans: "dentry_same d e \<Longrightarrow> dentry_same e f \<Longrightarrow> dentry_same d f"
  by (simp add: dentry_same_def)

lemma dput_post_upd:
  assumes "dcache_wf (s\<lparr>dentries := (dentries s)(p \<mapsto> e)\<rparr>)" and "dentries s p = Some d" and "dentry_same d e"
    and "ext_refs e = ext_refs d - 1" and "held s = {}"
  shows "dput_post p s (s\<lparr>dentries := (dentries s)(p \<mapsto> e)\<rparr>)"
  using assms unfolding dput_post_def by auto

lemma sb_same_trans:
  assumes "sb_same a b" and "sb_same b c"
  shows "sb_same a c"
proof -
  have "c = b\<lparr>s_inodes := s_inodes c, s_dirty := s_dirty c, s_io := s_io c\<rparr>" using assms(2) by (simp add: sb_same_def)
  also have "\<dots> = (a\<lparr>s_inodes := s_inodes b, s_dirty := s_dirty b, s_io := s_io b\<rparr>)\<lparr>s_inodes := s_inodes c, s_dirty := s_dirty c, s_io := s_io c\<rparr>"
    by (rule arg_cong [OF assms(1) [unfolded sb_same_def]])
  finally show ?thesis by (simp add: sb_same_def)
qed

lemma sbs_same_trans:
  assumes "sbs_same m1 m2" and "sbs_same m2 m3"
  shows "sbs_same m1 m3"
  unfolding sbs_same_def
proof
  fix q
  have "rel_option sb_same (m1 q) (m2 q)" "rel_option sb_same (m2 q) (m3 q)"
    using assms by (simp_all add: sbs_same_def)
  then show "rel_option sb_same (m1 q) (m3 q)"
    by (cases "m1 q"; cases "m2 q"; cases "m3 q") (auto intro: sb_same_trans)
qed

lemma dput_post_kill:
  assumes k: "kill_step p d s s1" and "ext_refs d = 1" and h: "held s1 = {}" and root: "d_parent d = p"
  shows "dput_post p s s1"
proof -
  have "\<exists>e. dentries s c = Some e \<and> dentry_same e e' \<and> ext_refs e' = ext_refs e - of_bool (c = p)"
    if c: "dentries s1 c = Some e'" for c e'
  proof -
    obtain e where e: "c \<noteq> p" "dentries s c = Some e" "e' = e\<lparr>d_subdirs := removeAll p (d_subdirs e)\<rparr>"
      by (rule killed_dentries [OF k c])
    with killed_ext_refs [OF k e(2,1)] root show ?thesis by simp
  qed
  moreover have "c \<in> dom (dentries s1)" if "dentries s c = Some e" "0 < ext_refs e - of_bool (c = p)" for c e
    using that killed_live(1) [OF k that(1)] kill_stepD(2) [OF k] assms(2) by (cases "c = p") auto
  ultimately show ?thesis
    using killed_wf [OF k] h kill_stepD(4) [OF k] unfolding dput_post_def killed_def by blast
qed

lemma dput_post_up:
  assumes k: "kill_step p d s s1" and "ext_refs d = 1" and up: "d_parent d \<noteq> p" and post: "dput_post (d_parent d) s1 s'"
  shows "dput_post p s s'"
proof -
  have "\<exists>e. dentries s c = Some e \<and> dentry_same e e' \<and> ext_refs e' = ext_refs e - of_bool (c = p)"
    if c: "dentries s' c = Some e'" for c e'
  proof -
    obtain e1 where e1: "dentries s1 c = Some e1" "dentry_same e1 e'" "ext_refs e' = ext_refs e1 - of_bool (c = d_parent d)"
      using post c unfolding dput_post_def by blast
    obtain e where e: "c \<noteq> p" "dentries s c = Some e" "e1 = e\<lparr>d_subdirs := removeAll p (d_subdirs e)\<rparr>"
      by (rule killed_dentries [OF k e1(1)])
    with killed_ext_refs [OF k e(2,1)] e1 show ?thesis by (auto simp: dentry_same_def)
  qed
  moreover have "c \<in> dom (dentries s')" if "dentries s c = Some e" "0 < ext_refs e - of_bool (c = p)" for c e
  proof (cases "c = p")
    case True then show ?thesis using that kill_stepD(2) [OF k] assms(2) by simp
  next
    case False
    with that killed_live(1) [OF k that(1)] killed_ext_refs [OF k that(1)] post show ?thesis
      unfolding dput_post_def by fastforce
  qed
  moreover have "sbs_same (supers s) (supers s')"
    using kill_stepD(4) [OF k] post sbs_same_trans unfolding dput_post_def killed_def by blast
  ultimately show ?thesis
    using post kill_stepD(4) [OF k] unfolding dput_post_def killed_def by simp
qed

lemma dcache_frames [simp]:
  "dentry_ok (dentry_unused_update f3 s) p d = dentry_ok s p d" "dentry_ok (nr_dentry_update f4 s) p d = dentry_ok s p d"
  "dentry_ok (nr_unused_dentries_update f5 s) p d = dentry_ok s p d" "dentry_ok (rename_seq_update f6 s) p d = dentry_ok s p d"
  "dentry_ok (ticks_update f7 s) p d = dentry_ok s p d" "dentry_ok (held_update f8 s) p d = dentry_ok s p d"
  "hash_ok (dentry_unused_update f3 s) = hash_ok s" "hash_ok (nr_dentry_update f4 s) = hash_ok s"
  "hash_ok (nr_unused_dentries_update f5 s) = hash_ok s" "hash_ok (rename_seq_update f6 s) = hash_ok s"
  "hash_ok (ticks_update f7 s) = hash_ok s" "hash_ok (held_update f8 s) = hash_ok s"
  "alias_ok (dentry_unused_update f3 s) p i = alias_ok s p i" "alias_ok (nr_dentry_update f4 s) p i = alias_ok s p i"
  "alias_ok (nr_unused_dentries_update f5 s) p i = alias_ok s p i" "alias_ok (rename_seq_update f6 s) p i = alias_ok s p i"
  "alias_ok (ticks_update f7 s) p i = alias_ok s p i" "alias_ok (held_update f8 s) p i = alias_ok s p i"
  by (simp_all add: dentry_ok_def hash_ok_def alias_ok_def)

lemma dcache_wf_frames [simp]:
  "dcache_wf (nr_dentry_update f4 s) = dcache_wf s" "dcache_wf (nr_unused_dentries_update f5 s) = dcache_wf s"
  "dcache_wf (ticks_update f7 s) = dcache_wf s" "dcache_wf (held_update f8 s) = dcache_wf s"
  by (simp_all add: dcache_wf_def)

lemma dcache_wf_unused:
  assumes "dcache_wf s" and "distinct us" and "set us \<subseteq> dom (dentries s)"
  shows "dcache_wf (s\<lparr>dentry_unused := us\<rparr>)"
  using assms by (simp add: dcache_wf_def)

lemma dput_cached:
  assumes wf: "dcache_wf s" and h: "held s = {}" and p: "dentries s p = Some d" and c: "d_count d = 1" and r: "0 < ext_refs d"
    and op: "d_op d \<noteq> Simple_dentry_operations" and hashed: "\<not> d_unhashed d"
  shows "\<exists>s'. dput_repeat p s = Some s' \<and> dput_post p s s'"
proof -
  let ?in = "p \<in> set (dentry_unused s)"
  let ?d = "if ?in then d\<lparr>d_count := 0\<rparr> else d\<lparr>d_count := 0, d_flags := d_flags d OR 8\<rparr>"
  let ?u = "s\<lparr>dentries := (dentries s)(p \<mapsto> ?d)\<rparr>"
  let ?us = "if ?in then dentry_unused s else p # dentry_unused s"
  let ?s = "?u\<lparr>dentry_unused := ?us, nr_unused_dentries := nr_unused_dentries s + of_bool (\<not> ?in)\<rparr>"
  have dr: "dput_repeat p s = Some ?s"
    by (subst dput_repeat.simps)
      (cases ?in, simp_all add: p c h dput_last_def op hashed lock_simps)
  have e: "ext_refs ?d = ext_refs d - 1" "ext_refs d = 1" using c r by (auto simp: ext_refs_def)
  have "dcache_wf ?u" by (rule dcache_wf_upd_dentry [OF wf p]) (use e hashed in auto)
  moreover then have "dput_post p s ?u" by (rule dput_post_upd [OF _ p _ e(1) h]) simp
  moreover have "dcache_wf (?u\<lparr>dentry_unused := ?us\<rparr>)"
    by (rule dcache_wf_unused [OF \<open>dcache_wf ?u\<close>]) (use dcache_wfD(8,9) [OF wf] in auto)
  ultimately have "dput_post p s ?s" using h by (simp add: dput_post_def)
  with dr show ?thesis by blast
qed

lemma dput_killed:
  assumes wf: "dcache_wf s" and h: "held s = {}" and p: "dentries s p = Some d" and c: "d_count d = 1" and r: "0 < ext_refs d"
    and gone: "d_op d = Simple_dentry_operations \<or> d_unhashed d"
  obtains s1 where "kill_step p d s s1" "held s1 = {}"
    "dput_repeat p s = (if d_parent d = p then Some s1 else dput_repeat (d_parent d) s1)"
proof -
  define fl where "fl = (if d_unhashed d then d_flags d else d_flags d OR DCACHE_UNHASHED)"
  define t where "t = s\<lparr>dentries := (dentries s)(p \<mapsto> d\<lparr>d_count := 0, d_flags := fl\<rparr>),
      dentry_hashtable := (\<lambda>b. removeAll p (dentry_hashtable s b)), held := {Dcache_lock, D_lock p}\<rparr>"
  let ?s = "s\<lparr>held := {Dcache_lock, D_lock p}, dentries := (dentries s)(p \<mapsto> d\<lparr>d_count := 0\<rparr>)\<rparr>"
  have sub: "d_subdirs d = []" using c r by (simp add: ext_refs_def)
  obtain s1 where s1: "dput_kill p t = Some (if d_parent d = p then None else Some (d_parent d), s1)"
    "kill_step p d s s1" "held s1 = {}"
    by (rule dput_kill_killed [OF wf p sub t_def])
  have "(if d_unhashed d then Some ?s else d_drop_locked p ?s) = Some t"
  proof (cases "d_unhashed d")
    case True
    then show ?thesis by (simp add: t_def fl_def dcache_wf_unhashed [OF wf p True])
  next
    case False
    have "d_drop_locked p ?s = Some (?s\<lparr>dentries := (dentries ?s)(p \<mapsto> d\<lparr>d_count := 0, d_flags := d_flags d OR DCACHE_UNHASHED\<rparr>),
           dentry_hashtable := (\<lambda>b. removeAll p (dentry_hashtable ?s b))\<rparr>)"
      using d_drop_locked_ok [of ?s p "d\<lparr>d_count := 0\<rparr>"] dcache_wfD(7) [OF wf] False by simp
    then show ?thesis using False by (simp add: t_def fl_def)
  qed
  moreover define u where "u = s\<lparr>held := {Dcache_lock}, dentries := (dentries s)(p \<mapsto> d\<lparr>d_count := 0\<rparr>)\<rparr>"
  have "spin_lock (D_lock p) u = Some ?s" by (simp add: u_def insert_commute)
  moreover have "d_drop_locked p ?s = Some ?s" if "d_unhashed d" using that by (simp add: d_drop_locked_def)
  ultimately have "dput_last p u = dput_kill p t"
    using gone by (cases "d_unhashed d") (auto simp: dput_last_def)
  moreover have "dentries_update (\<lambda>m. m(p \<mapsto> d\<lparr>d_count := 0\<rparr>)) (held_update (insert Dcache_lock) s) = u"
    by (simp add: u_def h)
  ultimately have "dput_repeat p s = Option.bind (dput_kill p t) (\<lambda>(parent, s). case parent of None \<Rightarrow> Some s | Some parent \<Rightarrow> dput_repeat parent s)"
    by (subst dput_repeat.simps) (simp add: p c h)
  then show thesis by (intro that [OF s1(2,3)]) (simp add: s1(1))
qed

lemma dput_repeat_total:
  assumes "dcache_wf s" and "held s = {}" and "dentries s p = Some d" and "0 < ext_refs d"
  shows "\<exists>s'. dput_repeat p s = Some s' \<and> dput_post p s s'"
  using assms
proof (induction "card (dom (dentries s))" arbitrary: s p d rule: less_induct)
  case less
  note wf = less.prems(1) and h = less.prems(2) and p = less.prems(3) and r = less.prems(4)
  consider (shared) "d_count d \<noteq> 1" | (cached) "d_count d = 1" "d_op d \<noteq> Simple_dentry_operations" "\<not> d_unhashed d"
    | (gone) "d_count d = 1" "d_op d = Simple_dentry_operations \<or> d_unhashed d" by blast
  then show ?case
  proof cases
    case shared
    let ?e = "d\<lparr>d_count := d_count d - 1\<rparr>"
    have e: "ext_refs ?e = ext_refs d - 1" by (simp add: ext_refs_def)
    have "dcache_wf (s\<lparr>dentries := (dentries s)(p \<mapsto> ?e)\<rparr>)"
      by (rule dcache_wf_upd_dentry [OF wf p]) (use e r in simp_all)
    then have "dput_post p s (s\<lparr>dentries := (dentries s)(p \<mapsto> ?e)\<rparr>)"
      by (rule dput_post_upd [OF _ p _ e h]) simp
    moreover have "dput_repeat p s = Some (s\<lparr>dentries := (dentries s)(p \<mapsto> ?e)\<rparr>)"
      by (subst dput_repeat.simps) (simp add: p shared)
    ultimately show ?thesis by blast
  next
    case cached
    show ?thesis by (rule dput_cached [OF wf h p cached(1) r cached(2,3)])
  next
    case gone
    obtain s1 where s1: "kill_step p d s s1" "held s1 = {}"
      "dput_repeat p s = (if d_parent d = p then Some s1 else dput_repeat (d_parent d) s1)"
      by (rule dput_killed [OF wf h p gone(1) r gone(2)])
    have e: "ext_refs d = 1" using r gone(1) by (simp add: ext_refs_def)
    show ?thesis
    proof (cases "d_parent d = p")
      case True
      then show ?thesis using s1(3) dput_post_kill [OF s1(1) e s1(2) True] by auto
    next
      case False
      obtain q where q: "dentries s (d_parent d) = Some q" using dentry_okD(3) [OF dcache_wfD(4) [OF wf p]] by blast
      let ?q = "q\<lparr>d_subdirs := removeAll p (d_subdirs q)\<rparr>"
      have "dentries s1 (d_parent d) = Some ?q" by (rule killed_live(1) [OF s1(1) q False])
      moreover have "0 < ext_refs ?q"
        using killed_ext_refs [OF s1(1) q False] dentry_okD(5) [OF dcache_wfD(4) [OF wf q]] by simp
      moreover have "card (dom (dentries s1)) < card (dom (dentries s))"
        by (rule psubset_card_mono [OF dcache_wfD(3) [OF wf]]) (use killed_dom [OF s1(1)] p in blast)
      ultimately obtain s' where "dput_repeat (d_parent d) s1 = Some s'" "dput_post (d_parent d) s1 s'"
        using less.hyps [OF _ killed_wf [OF s1(1)] s1(2)] by blast
      then show ?thesis using s1(3) False dput_post_up [OF s1(1) e False] by auto
    qed
  qed
qed

lemma dput_total:
  assumes "dcache_wf s" and "held s = {}" and "dentries s p = Some d" and "0 < ext_refs d"
  shows "\<exists>s'. dput p s = Some s' \<and> dput_post p s s'"
  using dput_repeat_total [OF assms] dentry_parent_pos(2) [OF assms(1,3)] by (simp add: dput_def)

end
