(* ===== verification/Dcache_Ops.thy ===== *)
theory Dcache_Ops
  imports Dcache
begin

text \<open>
  What the operations of \<open>Dcache\<close> that build the tree do to it: allocation, instantiation, hashing and lookup.
  Each lemma gives the state an operation ends in and shows that the invariant holds there. \<open>child_of\<close> is
  the abstract view of a directory, a partial function from names to dentries.
\<close>

text \<open>The dentry \<open>d_alloc\<close> makes, and the addresses it uses up: a long name is a block of its own.\<close>

definition fresh_dentry :: "ptr \<Rightarrow> ptr \<Rightarrow> qstr \<Rightarrow> 'a dcache_scheme \<Rightarrow> dentry" where
  "fresh_dentry parent sb nm s =
     \<lparr>d_count = 1, d_flags = DCACHE_UNHASHED, d_inode = NULL, d_parent = parent,
      d_name = \<lparr>q_hash = q_hash nm, q_len = q_len nm, q_name = take (q_len nm) (q_name nm)\<rparr>,
      d_subdirs = [], d_op = No_dops, d_sb = sb, d_fsdata = NULL, d_mounted = 0,
      d_iname = (if q_len nm > DNAME_INLINE_LEN - 1 then dentry_slab s (next_addr s) else take (q_len nm) (q_name nm)),
      d_external = (q_len nm > DNAME_INLINE_LEN - 1)\<rparr>"

definition name_blocks :: "qstr \<Rightarrow> int" where
  "name_blocks nm = (if q_len nm > DNAME_INLINE_LEN - 1 then 2 else 1)"

definition d_alloc_mem :: "qstr \<Rightarrow> 'a dcache_scheme \<Rightarrow> bool" where
  "d_alloc_mem nm s \<longleftrightarrow> mem_ok s (next_addr s) \<and> (q_len nm > DNAME_INLINE_LEN - 1 \<longrightarrow> mem_ok s (next_addr s + 1))"

text \<open>The hashed dentry a name stands for in a directory.\<close>

definition child_of :: "'a dcache_scheme \<Rightarrow> ptr \<Rightarrow> string \<Rightarrow> ptr \<Rightarrow> bool" where
  "child_of s r str c \<longleftrightarrow> (\<exists>d. dentries s c = Some d \<and> \<not> d_unhashed d \<and> d_parent d = r \<and> nm_of d = str)"

text \<open>The state \<open>t\<close> is \<open>s\<close> with the dentry \<open>p\<close>, which was \<open>d\<close>, entered into its hash chain.\<close>

definition rehashed :: "ptr \<Rightarrow> dentry \<Rightarrow> 'a dcache_scheme \<Rightarrow> 'a dcache_scheme \<Rightarrow> bool" where
  "rehashed p d s t \<longleftrightarrow> dentries s p = Some d \<and> d_unhashed d \<and>
     dentries t = (dentries s)(p \<mapsto> d\<lparr>d_flags := d_flags d AND - 17\<rparr>) \<and>
     dentry_hashtable t = (dentry_hashtable s)(bucket s d := p # dentry_hashtable s (bucket s d)) \<and>
     inodes t = inodes s \<and> next_addr t = next_addr s \<and> (\<forall>x. bucket t x = bucket s x)"

section \<open>Allocation, instantiation and hashing\<close>

text \<open>The name \<open>nm\<close> is one as the callers of the lookup make it: with its length and its hash.\<close>

definition qstr_ok :: "qstr \<Rightarrow> bool" where
  "qstr_ok nm \<longleftrightarrow> q_len nm = length (q_name nm) \<and> q_hash nm = full_name_hash (q_name nm) (length (q_name nm))"

text \<open>The state with an inode \<open>j\<close> that has been allocated on the superblock \<open>b\<close> at \<open>sb\<close>.\<close>

definition with_inode :: "ptr \<Rightarrow> super_block \<Rightarrow> inode \<Rightarrow> 'a icache_scheme \<Rightarrow> 'a icache_scheme" where
  "with_inode sb b j s = s\<lparr>next_addr := next_addr s + 1,
      supers := (supers s)(sb \<mapsto> b\<lparr>s_inodes := next_addr s # s_inodes b\<rparr>),
      inodes := (inodes s)(next_addr s \<mapsto> j),
      inode_in_use := next_addr s # inode_in_use s,
      nr_inodes := nr_inodes s + 1, last_ino := last_ino s + 1\<rparr>"

lemma d_alloc_ok:
  assumes "held s = {}" and "d_alloc_mem nm s" and "0 < next_addr s" and "dentries s parent = Some q" and "d_count q \<noteq> 0"
    and "parent \<noteq> 0" and "parent \<noteq> next_addr s"
  shows "d_alloc parent nm s = Some (next_addr s, s\<lparr>next_addr := next_addr s + name_blocks nm,
           dentries := (dentries s)(parent \<mapsto> q\<lparr>d_count := d_count q + 1, d_subdirs := next_addr s # d_subdirs q\<rparr>,
             next_addr s \<mapsto> fresh_dentry parent (d_sb q) nm s),
           nr_dentry := nr_dentry s + 1\<rparr>)"
proof (cases "q_len nm > 35")
  case True
  then show ?thesis using assms
    by (simp add: d_alloc_def d_alloc_mem_def fresh_dentry_def name_blocks_def Let_def dget_def lock_simps fun_upd_twist)
next
  case False
  then show ?thesis using assms
    by (simp add: d_alloc_def d_alloc_mem_def fresh_dentry_def name_blocks_def Let_def dget_def lock_simps fun_upd_twist)
qed

lemma d_alloc_fail:
  assumes "held s = {}" and "\<not> d_alloc_mem nm s" and "0 < next_addr s"
  shows "d_alloc parent nm s = Some (0, s\<lparr>next_addr := next_addr s + (if mem_ok s (next_addr s) then 2 else 1)\<rparr>)"
  using assms by (cases "mem_ok s (next_addr s)") (auto simp: d_alloc_def d_alloc_mem_def Let_def)

lemma icache_wf_grow:
  assumes "icache_wf s" and "0 \<le> k"
  shows "icache_wf (s\<lparr>next_addr := next_addr s + k\<rparr>)"
proof -
  have "inode_ok (s\<lparr>next_addr := next_addr s + k\<rparr>) p i" if "inodes s p = Some i" for p i
    using icache_wfD(2) [OF assms(1) that] assms(2) by (simp add: inode_ok_def)
  moreover have "super_ok (s\<lparr>next_addr := next_addr s + k\<rparr>) q b" if "supers s q = Some b" for q b
    using icache_wfD(3) [OF assms(1) that] assms(2) by (simp add: super_ok_def)
  ultimately show ?thesis using assms by (simp add: icache_wf_def)
qed

lemma dcache_wf_grow:
  assumes "dcache_wf s" and "0 \<le> k"
  shows "dcache_wf (s\<lparr>next_addr := next_addr s + k\<rparr>)"
proof -
  have "dentry_ok (s\<lparr>next_addr := next_addr s + k\<rparr>) p d" if "dentries s p = Some d" for p d
    using dcache_wfD(4) [OF assms(1) that] assms(2) by (auto simp: dentry_ok_def)
  moreover have "hash_ok (s\<lparr>next_addr := next_addr s + k\<rparr>)"
    using dcache_wfD(5) [OF assms(1)] by (simp add: hash_ok_def)
  ultimately show ?thesis using assms icache_wf_grow [of s k] by (simp add: dcache_wf_def alias_ok_def)
qed

lemma dcache_wf_child:
  assumes wf: "dcache_wf s" and q: "dentries s r = Some q" and n: "dentries s n = None" "0 < n" "n < next_addr s"
    and d: "d_parent d = r" "d_subdirs d = []" "d_inode d = 0" "d_unhashed d" "0 \<le> d_count d" "q_len (d_name d) = length (nm_of d)"
  shows "dcache_wf (s\<lparr>dentries := (dentries s)(r \<mapsto> q\<lparr>d_count := d_count q + 1, d_subdirs := n # d_subdirs q\<rparr>, n \<mapsto> d)\<rparr>)"
    (is "dcache_wf ?s")
proof -
  let ?q = "q\<lparr>d_count := d_count q + 1, d_subdirs := n # d_subdirs q\<rparr>"
  have rn: "r \<noteq> n" using q n by auto
  have new: "\<exists>y. dentries ?s c = Some y \<and> d_parent y = d_parent x \<and> set (d_subdirs x) \<subseteq> set (d_subdirs y) \<and> d_inode y = d_inode x
      \<and> d_unhashed y = d_unhashed x \<and> d_name y = d_name x"
    if "dentries s c = Some x" for c x using that q n rn by (cases "c = r"; cases "c = n") (simp_all add: subset_insertI)
  have fresh: "n \<notin> set (d_subdirs x)" if "dentries s c = Some x" for c x
    using dentry_okD(6) [OF dcache_wfD(4) [OF wf that], of n] n(1) by auto
  have "dentry_ok ?s c x" if x: "dentries ?s c = Some x" for c x
  proof (cases "c = n")
    case True
    then show ?thesis using x q n d rn by (simp add: dentry_ok_def ext_refs_def)
  next
    case False
    obtain y where y: "dentries s c = Some y" "d_parent x = d_parent y" "d_inode x = d_inode y" 
      "d_name x = d_name y" "d_unhashed x = d_unhashed y" "ext_refs x = ext_refs y"
      "d_subdirs x = (if c = r then n # d_subdirs y else d_subdirs y)"
      using x q False by (cases "c = r") (auto simp: ext_refs_def)
    note ok = dcache_wfD(4) [OF wf y(1)]
    have "\<exists>z. dentries ?s (d_parent y) = Some z \<and> (d_parent y \<noteq> c \<longrightarrow> c \<in> set (d_subdirs z))"
    proof -
      obtain w where w: "dentries s (d_parent y) = Some w" "d_parent y \<noteq> c \<longrightarrow> c \<in> set (d_subdirs w)"
        using dentry_okD(3) [OF ok] by blast
      from new [OF w(1)] w(2) show ?thesis by blast
    qed
    moreover have "k \<noteq> c \<and> (\<exists>z. dentries ?s k = Some z \<and> d_parent z = c)" if "k \<in> set (d_subdirs x)" for k
    proof (cases "k \<in> set (d_subdirs y)")
      case True then show ?thesis using dentry_okD(6) [OF ok, of k] new by metis
    next
      case False then show ?thesis using that y(7) rn d(1) by (auto split: if_splits)
    qed
    moreover have "distinct (d_subdirs x)" using dentry_okD(4) [OF ok] fresh [OF y(1)] y(7) by simp
    ultimately show ?thesis
      using dentry_okD(1,2,5,7-10) [OF ok] y(2-6) by (simp add: dentry_ok_def)
  qed
  moreover have "hash_ok ?s"
  proof (rule hash_ok_transfer [OF dcache_wfD(5) [OF wf]])
    fix c b x
    assume "dentries s c = Some x"
    from new [OF this] show "\<exists>y. dentries ?s c = Some y \<and> dlink x y" unfolding dlink_def by blast
  next
    fix c y
    assume "dentries ?s c = Some y" "\<not> d_unhashed y"
    with q d(4) show "\<exists>x. dentries s c = Some x \<and> dlink x y"
      by (cases "c = n"; cases "c = r") (auto simp: dlink_def)
  qed (simp_all add: hash_okD(1) [OF dcache_wfD(5) [OF wf]])
  moreover have "alias_ok ?s p i" if "inodes ?s p = Some i" for p i
  proof -
    from that dcache_wfD(6) [OF wf, of p i] have "alias_ok s p i" by simp
    then show ?thesis unfolding alias_ok_def using new by metis
  qed
  ultimately show ?thesis
    using dcache_wfD(1,2,3,7,8,9) [OF wf] unfolding dcache_wf_def by auto
qed

lemma d_unhashed_clear [simp]: "\<not> d_unhashed (d\<lparr>d_flags := f AND - 17\<rparr>)"
  by (simp add: d_unhashed_def and.assoc)

lemma fresh_dentry_simps [simp]:
  "d_parent (fresh_dentry r b nm s) = r" "d_subdirs (fresh_dentry r b nm s) = []" "d_inode (fresh_dentry r b nm s) = 0"
  "d_count (fresh_dentry r b nm s) = 1" "d_unhashed (fresh_dentry r b nm s)" "d_sb (fresh_dentry r b nm s) = b"
  "d_op (fresh_dentry r b nm s) = No_dops" "d_mounted (fresh_dentry r b nm s) = 0"
  "d_name (fresh_dentry r b nm s) = \<lparr>q_hash = q_hash nm, q_len = q_len nm, q_name = take (q_len nm) (q_name nm)\<rparr>"
  by (simp_all add: fresh_dentry_def d_unhashed_def)

lemma d_alloc_wf:
  assumes wf: "dcache_wf s" and q: "dentries s r = Some q" and "q_len nm \<le> length (q_name nm)"
  shows "dcache_wf (s\<lparr>next_addr := next_addr s + name_blocks nm,
           dentries := (dentries s)(r \<mapsto> q\<lparr>d_count := d_count q + 1, d_subdirs := next_addr s # d_subdirs q\<rparr>,
             next_addr s \<mapsto> fresh_dentry r (d_sb q) nm s),
           nr_dentry := nr_dentry s + 1\<rparr>)"
proof -
  let ?s = "s\<lparr>next_addr := next_addr s + name_blocks nm\<rparr>"
  have "dcache_wf ?s" by (rule dcache_wf_grow [OF wf]) (simp add: name_blocks_def)
  moreover have "0 < next_addr s" using icache_wfD(1) [OF dcache_wfD(1) [OF wf]] .
  moreover have "0 < name_blocks nm" by (simp add: name_blocks_def)
  ultimately show ?thesis
    using dcache_wf_child [of ?s r q "next_addr s" "fresh_dentry r (d_sb q) nm s"] q dcache_wf_fresh [OF wf] assms(3)
    by simp
qed

lemma d_instantiate_ok:
  assumes "held s = {}" and "dentries s p = Some d" and "d_inode d = 0" and "inodes s 0 = None" and "inodes s q = Some i"
  shows "d_instantiate p q s = Some (s\<lparr>inodes := (inodes s)(q \<mapsto> i\<lparr>i_dentry := p # i_dentry i\<rparr>),
           dentries := (dentries s)(p \<mapsto> d\<lparr>d_inode := q\<rparr>)\<rparr>)"
  using assms by (auto simp: d_instantiate_def d_alias_empty_def lock_simps)

lemma d_instantiate_negative:
  assumes "held s = {}" and "dentries s p = Some d" and "d_inode d = 0" and "inodes s 0 = None"
  shows "d_instantiate p 0 s = Some s"
  using assms by (auto simp: d_instantiate_def d_alias_empty_def lock_simps dentry_upd_same fun_upd_idem)

lemma d_instantiate_wf:
  assumes wf: "dcache_wf s" and p: "dentries s p = Some d" "d_inode d = 0" and q: "inodes s q = Some i"
    "int (length (i_dentry i)) < i_count i"
  shows "dcache_wf (s\<lparr>inodes := (inodes s)(q \<mapsto> i\<lparr>i_dentry := p # i_dentry i\<rparr>),
           dentries := (dentries s)(p \<mapsto> d\<lparr>d_inode := q\<rparr>)\<rparr>)" (is "dcache_wf ?s")
proof -
  note iwf = dcache_wfD(1) [OF wf]
  obtain "quiet i" "0 < q" "0 \<le> i_count i" by (rule inode_live [OF iwf q(1)])
  have "icache_wf (s\<lparr>inodes := (inodes s)(q \<mapsto> i\<lparr>i_dentry := p # i_dentry i\<rparr>)\<rparr>)"
    by (rule icache_wf_upd_inode [OF iwf q(1)]) (use \<open>quiet i\<close> \<open>0 \<le> i_count i\<close> in \<open>simp_all add: quiet_def\<close>)
  then have "icache_wf ?s" by simp
  moreover have new: "\<exists>y. dentries ?s c = Some y \<and> dlink x y \<and> d_subdirs y = d_subdirs x" if "dentries s c = Some x" for c x
    using that p by (cases "c = p") (simp_all add: dlink_def)
  moreover have bk: "bucket ?s x = bucket s x" for x by simp
  moreover have "dentry_ok ?s c x" if x: "dentries ?s c = Some x" for c x
  proof -
    obtain y where y: "dentries s c = Some y" "d_parent x = d_parent y" "d_subdirs x = d_subdirs y" "d_name x = d_name y"
      "d_unhashed x = d_unhashed y" "ext_refs x = ext_refs y" "d_inode x = (if c = p then q else d_inode y)"
      using x p by (cases "c = p") (auto simp: ext_refs_def)
    note ok = dcache_wfD(4) [OF wf y(1)]
    obtain w where w: "dentries s (d_parent y) = Some w" "d_parent y \<noteq> c \<longrightarrow> c \<in> set (d_subdirs w)"
      using dentry_okD(3) [OF ok] by blast
    have "\<exists>z. dentries ?s (d_parent y) = Some z \<and> (d_parent y \<noteq> c \<longrightarrow> c \<in> set (d_subdirs z))"
      using new [OF w(1)] w(2) by auto
    moreover have "k \<noteq> c \<and> (\<exists>z. dentries ?s k = Some z \<and> d_parent z = c)" if k: "k \<in> set (d_subdirs y)" for k
    proof -
      obtain z where z: "k \<noteq> c" "dentries s k = Some z" "d_parent z = c" using dentry_okD(6) [OF ok k] by blast
      with new [OF z(2)] show ?thesis by (auto simp: dlink_def)
    qed
    moreover have "\<exists>j. inodes ?s (d_inode x) = Some j \<and> c \<in> set (i_dentry j)" if "d_inode x \<noteq> 0"
      using that y(7) q(1) dentry_okD(7) [OF ok] by (cases "c = p") auto
    ultimately show ?thesis
      using dentry_okD(1,2,4,5,8-10) [OF ok] y(2-6) by (simp add: dentry_ok_def)
  qed
  moreover have "hash_ok ?s"
  proof (rule hash_ok_transfer [OF dcache_wfD(5) [OF wf]])
    fix c y
    assume "dentries ?s c = Some y"
    with p show "\<exists>x. dentries s c = Some x \<and> dlink x y" by (cases "c = p") (auto simp: dlink_def)
  next
    fix c b x
    assume "dentries s c = Some x"
    from new [OF this] show "\<exists>y. dentries ?s c = Some y \<and> dlink x y" by blast
  qed (simp_all add: hash_okD(1) [OF dcache_wfD(5) [OF wf]])
  moreover have "alias_ok ?s a j" if j: "inodes ?s a = Some j" for a j
  proof (cases "a = q")
    case True
    have "p \<notin> set (i_dentry i)" using dcache_wfD(6) [OF wf q(1)] p \<open>0 < q\<close> by (auto simp: alias_ok_def)
    with True j q dcache_wfD(6) [OF wf q(1)] show ?thesis by (auto simp: alias_ok_def)
  next
    case False
    with j have "inodes s a = Some j" by simp
    note al = dcache_wfD(6) [OF wf this]
    have "0 < a" by (rule inode_live [OF iwf \<open>inodes s a = Some j\<close>])
    then have "p \<notin> set (i_dentry j)" using al p by (auto simp: alias_ok_def)
    then show ?thesis using al by (auto simp: alias_ok_def)
  qed
  ultimately show ?thesis
    using dcache_wfD(2,3,7,8,9) [OF wf] unfolding dcache_wf_def by auto
qed

lemma d_rehash_ok:
  assumes "held s = {}" and "dentries s p = Some d"
  shows "d_rehash p s = Some (s\<lparr>dentries := (dentries s)(p \<mapsto> d\<lparr>d_flags := d_flags d AND - 17\<rparr>),
    dentry_hashtable := (dentry_hashtable s)(bucket s d := p # dentry_hashtable s (bucket s d))\<rparr>)"
  using assms by (simp add: d_rehash_def d_rehash_locked_def Let_def lock_simps)

lemma child_of_unique: "dcache_wf s \<Longrightarrow> child_of s r str c \<Longrightarrow> child_of s r str c' \<Longrightarrow> c = c'"
  using hash_okD(3) [OF dcache_wfD(5)] unfolding child_of_def by metis

lemma dentry_ok_transfer:
  assumes ok: "dentry_ok s c x" and same: "d_parent y = d_parent x" "d_name y = d_name x" "d_subdirs y = d_subdirs x"
    "0 \<le> ext_refs y" and "next_addr s \<le> next_addr s'"
    and ino: "d_inode y \<noteq> 0 \<Longrightarrow> \<exists>i. inodes s' (d_inode y) = Some i \<and> c \<in> set (i_dentry i)"
    and tab: "\<not> d_unhashed y \<Longrightarrow> c \<in> set (dentry_hashtable s' (bucket s' y)) \<and>
      q_hash (d_name y) = full_name_hash (nm_of y) (length (nm_of y))"
    and links: "\<And>k z. dentries s k = Some z \<Longrightarrow>
      \<exists>z'. dentries s' k = Some z' \<and> d_parent z' = d_parent z \<and> set (d_subdirs z) \<subseteq> set (d_subdirs z')"
  shows "dentry_ok s' c y"
  unfolding dentry_ok_def
proof (intro conjI ballI impI)
  show "\<exists>q. dentries s' (d_parent y) = Some q \<and> (d_parent y \<noteq> c \<longrightarrow> c \<in> set (d_subdirs q))"
  proof -
    obtain w where w: "dentries s (d_parent x) = Some w" "d_parent x \<noteq> c \<longrightarrow> c \<in> set (d_subdirs w)"
      using dentry_okD(3) [OF ok] by blast
    from links [OF w(1)] w(2) same(1) show ?thesis by auto
  qed
next
  fix k
  assume "k \<in> set (d_subdirs y)"
  then obtain z where z: "k \<noteq> c" "dentries s k = Some z" "d_parent z = c" using dentry_okD(6) [OF ok] same(3) by auto
  then show "k \<noteq> c" "\<exists>z. dentries s' k = Some z \<and> d_parent z = c" using links [OF z(2)] by auto
next
  assume "\<not> d_unhashed y"
  from tab [OF this] show "c \<in> set (dentry_hashtable s' (bucket s' y))"
    "q_hash (d_name y) = full_name_hash (nm_of y) (length (nm_of y))" by blast+
qed (use dentry_okD(1,2,4,10) [OF ok] same assms(6) ino in simp_all)

lemma rehashed_old:
  assumes "rehashed p d s t" and "dentries t c = Some y"
  shows "\<exists>x. dentries s c = Some x \<and> d_parent y = d_parent x \<and> d_name y = d_name x \<and> d_inode y = d_inode x \<and>
    d_subdirs y = d_subdirs x \<and> ext_refs y = ext_refs x \<and> (d_unhashed y \<longleftrightarrow> d_unhashed x \<and> c \<noteq> p)"
  using assms by (cases "c = p") (auto simp: ext_refs_def rehashed_def d_unhashed_clear)

lemma rehashed_new:
  assumes "rehashed p d s t" and "dentries s c = Some x"
  shows "\<exists>y. dentries t c = Some y \<and> d_parent y = d_parent x \<and> d_name y = d_name x \<and> d_inode y = d_inode x \<and>
    d_subdirs y = d_subdirs x \<and> (d_unhashed y \<longleftrightarrow> d_unhashed x \<and> c \<noteq> p)"
  using assms by (cases "c = p") (auto simp: rehashed_def d_unhashed_clear)

lemma rehashed_tab:
  assumes r: "rehashed p d s t"
  shows "c \<in> set (dentry_hashtable t b) \<longleftrightarrow> c \<in> set (dentry_hashtable s b) \<or> c = p \<and> b = bucket s d"
  using r by (auto simp: rehashed_def)

lemma rehashed_child:
  assumes r: "rehashed p d s t"
  shows "child_of t r str c \<longleftrightarrow> child_of s r str c \<or> c = p \<and> r = d_parent d \<and> str = nm_of d"
proof (cases "c = p")
  case True
  then show ?thesis using r by (auto simp: child_of_def rehashed_def d_unhashed_clear)
next
  case False
  then show ?thesis using r by (auto simp: child_of_def rehashed_def)
qed

lemma rehashed_dentry_ok:
  assumes wf: "dcache_wf s" and r: "rehashed p d s t" and y: "dentries t c = Some y"
    and nm: "q_hash (d_name d) = full_name_hash (nm_of d) (length (nm_of d))"
  shows "dentry_ok t c y"
proof -
  obtain x where x: "dentries s c = Some x" "d_parent y = d_parent x" "d_name y = d_name x" "d_inode y = d_inode x"
    "d_subdirs y = d_subdirs x" "ext_refs y = ext_refs x" "d_unhashed y \<longleftrightarrow> d_unhashed x \<and> c \<noteq> p"
    using rehashed_old [OF r y] by blast
  note ok = dcache_wfD(4) [OF wf x(1)]
  have bk: "bucket t y = bucket s x" using r x(2,3) by (simp add: rehashed_def)
  have tab: "c \<in> set (dentry_hashtable t (bucket t y)) \<and> q_hash (d_name y) = full_name_hash (nm_of y) (length (nm_of y))"
    if u: "\<not> d_unhashed y"
  proof (cases "c = p")
    case True
    then have "x = d" using x(1) r by (simp add: rehashed_def)
    then show ?thesis using True x(3) nm bk rehashed_tab [OF r] by simp
  next
    case False
    then have "\<not> d_unhashed x" using u x(7) by simp
    from dentry_okD(8,9) [OF ok this] show ?thesis using x(3) bk rehashed_tab [OF r] by simp
  qed
  show ?thesis
  proof (rule dentry_ok_transfer [OF ok x(2,3,5)])
    show "0 \<le> ext_refs y" using dentry_okD(5) [OF ok] x(6) by simp
    show "next_addr s \<le> next_addr t" using r by (simp add: rehashed_def)
    show "d_inode y \<noteq> 0 \<Longrightarrow> \<exists>i. inodes t (d_inode y) = Some i \<and> c \<in> set (i_dentry i)"
      using dentry_okD(7) [OF ok] x(4) r by (simp add: rehashed_def)
  next
    fix k z
    assume "dentries s k = Some z"
    from rehashed_new [OF r this]
    show "\<exists>z'. dentries t k = Some z' \<and> d_parent z' = d_parent z \<and> set (d_subdirs z) \<subseteq> set (d_subdirs z')" by auto
  qed (rule tab)
qed

lemma rehashed_hash_ok:
  assumes wf: "dcache_wf s" and r: "rehashed p d s t" and new: "\<And>c. \<not> child_of s (d_parent d) (nm_of d) c"
  shows "hash_ok t"
  unfolding hash_ok_def
proof (intro conjI allI impI)
  fix b c
  assume "c \<in> set (dentry_hashtable t b)"
  then consider "c = p" "b = bucket s d" | "c \<in> set (dentry_hashtable s b)" using rehashed_tab [OF r] by blast
  then show "\<exists>y. dentries t c = Some y \<and> \<not> d_unhashed y \<and> b = bucket t y"
  proof cases
    case 1
    then show ?thesis using r by (simp add: rehashed_def d_unhashed_clear)
  next
    case 2
    then obtain x where x: "dentries s c = Some x" "\<not> d_unhashed x" "b = bucket s x"
      using hash_okD(2) [OF dcache_wfD(5) [OF wf]] by blast
    have "bucket t x = bucket s x" using r by (simp add: rehashed_def)
    with rehashed_new [OF r x(1)] x(2,3) show ?thesis by auto
  qed
next
  fix b
  have "p \<notin> set (dentry_hashtable s b')" for b'
    using hash_okD(2) [OF dcache_wfD(5) [OF wf], of p b'] r by (auto simp: rehashed_def)
  then show "distinct (dentry_hashtable t b)"
    using hash_okD(1) [OF dcache_wfD(5) [OF wf]] r by (simp add: rehashed_def)
next
  fix c1 c2 e1 e2
  assume c: "dentries t c1 = Some e1 \<and> dentries t c2 = Some e2 \<and> \<not> d_unhashed e1 \<and> \<not> d_unhashed e2 \<and>
    d_parent e1 = d_parent e2 \<and> nm_of e1 = nm_of e2"
  then have "child_of t (d_parent e1) (nm_of e1) c1" "child_of t (d_parent e1) (nm_of e1) c2"
    unfolding child_of_def by auto
  then show "c1 = c2" unfolding rehashed_child [OF r] using new child_of_unique [OF wf] by metis
qed

lemma d_rehash_wf:
  assumes wf: "dcache_wf s" and h: "held s = {}" and p: "dentries s p = Some d" "d_unhashed d"
    and nm: "q_hash (d_name d) = full_name_hash (nm_of d) (length (nm_of d))"
    and new: "\<And>c. \<not> child_of s (d_parent d) (nm_of d) c"
  shows "\<exists>t. d_rehash p s = Some t \<and> dcache_wf t \<and> held t = {} \<and> rehashed p d s t \<and> supers t = supers s"
proof -
  define t where "t = s\<lparr>dentries := (dentries s)(p \<mapsto> d\<lparr>d_flags := d_flags d AND - 17\<rparr>),
    dentry_hashtable := (dentry_hashtable s)(bucket s d := p # dentry_hashtable s (bucket s d))\<rparr>"
  have r: "rehashed p d s t" using p by (simp add: rehashed_def t_def)
  have "icache_wf t" "even (rename_seq t)" "finite (dom (dentries t))" "\<forall>q b. supers t q = Some b \<longrightarrow> s_anon b = []"
    "distinct (dentry_unused t)" "set (dentry_unused t) \<subseteq> dom (dentries t)"
    using dcache_wfD(1,2,3,7,8,9) [OF wf] by (auto simp: t_def)
  moreover have "alias_ok t a j" if j: "inodes t a = Some j" for a j
  proof -
    have "alias_ok s a j" using dcache_wfD(6) [OF wf] j by (simp add: t_def)
    then show ?thesis using rehashed_new [OF r] unfolding alias_ok_def by metis
  qed
  ultimately have "dcache_wf t"
    using rehashed_dentry_ok [OF wf r _ nm] rehashed_hash_ok [OF wf r new] unfolding dcache_wf_def by blast
  then show ?thesis using d_rehash_ok [OF h p(1)] r h by (auto simp: t_def)
qed

section \<open>Lookup\<close>

lemma d_lookup_chain_skip:
  assumes "held s = {}" and "dentries s r = Some q" and "dentries s c = Some d" "q_len (d_name d) = length (nm_of d)"
    "d_parent d = r \<longrightarrow> nm_of d \<noteq> take (q_len nm) (q_name nm)" and "q_len nm \<le> length (q_name nm)"
  shows "d_lookup_chain r nm (c # cs) s = d_lookup_chain r nm cs s"
proof -
  have "q_len (d_name d) \<noteq> q_len nm \<or> take (q_len nm) (nm_of d) \<noteq> take (q_len nm) (q_name nm)"
    if "d_parent d = r" using assms(4,5) that by auto
  moreover have "held_update (\<lambda>x. x - {D_lock c}) s = s" by (rule held_idem) (simp add: assms(1))
  note hi = this
  ultimately show ?thesis using assms(1,2,3) by (auto simp: lock_simps hi)
qed

lemma d_lookup_chain_miss:
  assumes "held s = {}" and "dentries s r = Some q" and "\<And>c. c \<in> set cs \<Longrightarrow>
    \<exists>d. dentries s c = Some d \<and> q_len (d_name d) = length (nm_of d) \<and>
      (d_parent d = r \<longrightarrow> nm_of d \<noteq> take (q_len nm) (q_name nm))" and "q_len nm \<le> length (q_name nm)"
  shows "d_lookup_chain r nm cs s = Some (0, s)"
  using assms(3)
proof (induction cs)
  case (Cons c cs)
  then obtain d where d: "dentries s c = Some d" "q_len (d_name d) = length (nm_of d)"
    "d_parent d = r \<longrightarrow> nm_of d \<noteq> take (q_len nm) (q_name nm)" by auto
  have "d_lookup_chain r nm cs s = Some (0, s)" using Cons by simp
  then show ?case using d_lookup_chain_skip [OF assms(1,2) d assms(4)] by simp
qed simp

lemma d_lookup_chain_hit:
  assumes "held s = {}" and "dentries s r = Some q" and "\<And>k. k \<in> set xs \<Longrightarrow>
    \<exists>d. dentries s k = Some d \<and> q_len (d_name d) = length (nm_of d) \<and>
      (d_parent d = r \<longrightarrow> nm_of d \<noteq> take (q_len nm) (q_name nm))" and "q_len nm \<le> length (q_name nm)"
    and "dentries s c = Some d" "d_parent d = r" "nm_of d = take (q_len nm) (q_name nm)" "q_len (d_name d) = q_len nm"
      "q_hash (d_name d) = q_hash nm" "\<not> d_unhashed d"
  shows "d_lookup_chain r nm (xs @ c # ys) s = Some (c, s\<lparr>dentries := (dentries s)(c \<mapsto> d\<lparr>d_count := d_count d + 1\<rparr>)\<rparr>)"
  using assms(3)
proof (induction xs)
  case Nil
  let ?u = "\<lambda>s. s\<lparr>dentries := (dentries s)(c \<mapsto> d\<lparr>d_count := d_count d + 1\<rparr>)\<rparr>"
  have hi: "held_update (\<lambda>x. x - {D_lock c}) (?u s) = ?u s" by (rule held_idem) (simp add: assms(1))
  show ?case using assms(1,2,5-10) hi by (simp add: lock_simps fun_upd_def)
next
  case (Cons k xs)
  then obtain e where d: "dentries s k = Some e" "q_len (d_name e) = length (nm_of e)"
    "d_parent e = r \<longrightarrow> nm_of e \<noteq> take (q_len nm) (q_name nm)" by auto
  have "d_lookup_chain r nm ((k # xs) @ c # ys) s = d_lookup_chain r nm (xs @ c # ys) s"
    unfolding append_Cons by (rule d_lookup_chain_skip [OF assms(1,2) d assms(4)])
  also have "\<dots> = Some (c, s\<lparr>dentries := (dentries s)(c \<mapsto> d\<lparr>d_count := d_count d + 1\<rparr>)\<rparr>)"
    by (rule Cons.IH) (rule Cons.prems, simp)
  finally show ?case .
qed

lemma d_lookup_miss:
  assumes wf: "dcache_wf s" and h: "held s = {}" and r: "dentries s r = Some q" and nm: "qstr_ok nm"
    and none: "\<And>c. \<not> child_of s r (q_name nm) c"
  shows "d_lookup_rcu r nm s = Some (0, s)" "d_lookup r nm s = Some (0, s)"
proof -
  show *: "d_lookup_rcu r nm s = Some (0, s)"
    unfolding d_lookup_rcu_def
  proof (rule d_lookup_chain_miss [OF h r])
    fix c
    assume "c \<in> set (dentry_hashtable s (d_hash r (q_hash nm) s))"
    then obtain d where d: "dentries s c = Some d" "\<not> d_unhashed d" using hash_okD(2) [OF dcache_wfD(5) [OF wf]] by blast
    moreover have "d_parent d = r \<longrightarrow> nm_of d \<noteq> q_name nm" using none [of c] d unfolding child_of_def by blast
    moreover have "q_len (d_name d) = length (nm_of d)" by (rule dentry_okD(10) [OF dcache_wfD(4) [OF wf d(1)]])
    ultimately show "\<exists>d. dentries s c = Some d \<and> q_len (d_name d) = length (nm_of d) \<and>
      (d_parent d = r \<longrightarrow> nm_of d \<noteq> take (q_len nm) (q_name nm))" using nm by (simp add: qstr_ok_def)
  qed (use nm in \<open>simp add: qstr_ok_def\<close>)
  show "d_lookup r nm s = Some (0, s)" using * dcache_wfD(2) [OF wf] by (simp add: d_lookup_def read_seqbegin_def)
qed

lemma d_lookup_hit:
  assumes wf: "dcache_wf s" and h: "held s = {}" and nm: "qstr_ok nm" and c: "child_of s r (q_name nm) c" "dentries s c = Some d"
  shows "d_lookup_rcu r nm s = Some (c, s\<lparr>dentries := (dentries s)(c \<mapsto> d\<lparr>d_count := d_count d + 1\<rparr>)\<rparr>)"
    "d_lookup r nm s = Some (c, s\<lparr>dentries := (dentries s)(c \<mapsto> d\<lparr>d_count := d_count d + 1\<rparr>)\<rparr>)"
proof -
  have d: "\<not> d_unhashed d" "d_parent d = r" "nm_of d = q_name nm" using c by (auto simp: child_of_def)
  note ok = dcache_wfD(4) [OF wf c(2)]
  have hash: "q_hash (d_name d) = q_hash nm" using dentry_okD(9) [OF ok d(1)] d(3) nm by (simp add: qstr_ok_def)
  have len: "q_len (d_name d) = q_len nm" using dentry_okD(10) [OF ok] d(3) nm by (simp add: qstr_ok_def)
  obtain q where q: "dentries s r = Some q" using dentry_okD(3) [OF ok] d(2) by blast
  let ?b = "d_hash r (q_hash nm) s"
  have "c \<in> set (dentry_hashtable s ?b)" using dentry_okD(8) [OF ok d(1)] d(2) hash by simp
  then obtain xs ys where xs: "dentry_hashtable s ?b = xs @ c # ys" by (auto dest: split_list)
  have ne: "c \<notin> set xs" using hash_okD(1) [OF dcache_wfD(5) [OF wf], of ?b] xs by auto
  show *: "d_lookup_rcu r nm s = Some (c, s\<lparr>dentries := (dentries s)(c \<mapsto> d\<lparr>d_count := d_count d + 1\<rparr>)\<rparr>)"
    unfolding d_lookup_rcu_def xs
  proof (rule d_lookup_chain_hit [OF h q _ _ c(2) d(2) _ len hash d(1)])
    fix k
    assume k: "k \<in> set xs"
    then have "k \<in> set (dentry_hashtable s ?b)" by (simp add: xs)
    then obtain e where e: "dentries s k = Some e" "\<not> d_unhashed e" using hash_okD(2) [OF dcache_wfD(5) [OF wf]] by blast
    moreover have "d_parent e = r \<longrightarrow> nm_of e \<noteq> q_name nm"
      using hash_okD(3) [OF dcache_wfD(5) [OF wf] e(1) c(2) e(2) d(1)] d(2,3) k ne by auto
    moreover have "q_len (d_name e) = length (nm_of e)" by (rule dentry_okD(10) [OF dcache_wfD(4) [OF wf e(1)]])
    ultimately show "\<exists>d. dentries s k = Some d \<and> q_len (d_name d) = length (nm_of d) \<and>
      (d_parent d = r \<longrightarrow> nm_of d \<noteq> take (q_len nm) (q_name nm))" using nm by (simp add: qstr_ok_def)
  qed (use nm d(3) in \<open>simp_all add: qstr_ok_def\<close>)
  show "d_lookup r nm s = Some (c, s\<lparr>dentries := (dentries s)(c \<mapsto> d\<lparr>d_count := d_count d + 1\<rparr>)\<rparr>)"
    using * dcache_wfD(2) [OF wf] by (simp add: d_lookup_def read_seqbegin_def)
qed

section \<open>A new inode\<close>

lemma with_inode_icache:
  assumes wf: "icache_wf s" and b: "supers s sb = Some b" and j: "i_sb j = sb" "quiet j" "0 \<le> i_count j" "\<not> i_hashed j"
  shows "icache_wf (with_inode sb b j s)" (is "icache_wf ?s")
proof -
  let ?p = "next_addr s"
  note fr = icache_wf_fresh [OF wf]
  have p: "0 < ?p" by (rule icache_wfD(1) [OF wf])
  have nh: "?p \<notin> set (inode_hashtable s h)" for h using wf fr(1) by (auto simp: icache_wf_def)
  have "inode_ok ?s c k" if k: "inodes ?s c = Some k" for c k
  proof (cases "c = ?p")
    case True
    then show ?thesis using k j p nh by (simp add: inode_ok_def with_inode_def)
  next
    case False
    then have ok: "inode_ok s c k" using k icache_wfD(2) [OF wf, of c k] by (simp add: with_inode_def)
    show ?thesis using ok b by (auto simp: inode_ok_def with_inode_def)
  qed
  moreover have "super_ok ?s a c" if c: "supers ?s a = Some c" for a c
  proof -
    obtain c' where c': "supers s a = Some c'" "s_dirty c = s_dirty c'" "s_io c = s_io c'"
        "s_inodes c = (if a = sb then ?p # s_inodes c' else s_inodes c')"
      using c b by (cases "a = sb") (auto simp: with_inode_def)
    have ok: "super_ok s a c'" by (rule icache_wfD(3) [OF wf c'(1)])
    have "?p \<notin> set (s_inodes c')" using ok fr(1) by (auto simp: super_ok_def)
    moreover have "\<exists>i. inodes ?s x = Some i \<and> i_sb i = a" if x: "x \<in> set (s_inodes c)" for x
    proof (cases "x = ?p")
      case True
      then have "a = sb" using x c'(4) \<open>?p \<notin> set (s_inodes c')\<close> by (auto split: if_splits)
      then show ?thesis using True j(1) by (simp add: with_inode_def)
    next
      case False
      then have "x \<in> set (s_inodes c')" using x c'(4) by (auto split: if_splits)
      then show ?thesis using ok False by (simp add: super_ok_def with_inode_def)
    qed
    moreover have "0 < a" "a < next_addr ?s" using ok by (simp_all add: super_ok_def with_inode_def)
    ultimately show ?thesis using ok c' by (auto simp: super_ok_def)
  qed
  ultimately show ?thesis using wf p by (auto simp: icache_wf_def with_inode_def)
qed

lemma with_inode_dcache:
  assumes wf: "dcache_wf s" and b: "supers s sb = Some b" and j: "i_sb j = sb" "quiet j" "0 \<le> i_count j" "\<not> i_hashed j"
    "i_dentry j = []"
  shows "dcache_wf (with_inode sb b j s)" (is "dcache_wf ?s")
proof -
  have fr: "inodes s (next_addr s) = None" by (rule icache_wf_fresh [OF dcache_wfD(1) [OF wf]])
  have "dentry_ok ?s c x" if x: "dentries ?s c = Some x" for c x
  proof -
    have "dentries s c = Some x" using x by (simp add: with_inode_def)
    then have "dentry_ok s c x" by (rule dcache_wfD(4) [OF wf])
    then show ?thesis
    proof (rule dentry_ok_transfer)
      show "d_inode x \<noteq> 0 \<Longrightarrow> \<exists>i. inodes ?s (d_inode x) = Some i \<and> c \<in> set (i_dentry i)"
        using dentry_okD(7) [OF \<open>dentry_ok s c x\<close>] fr by (auto simp: with_inode_def)
      show "\<not> d_unhashed x \<Longrightarrow> c \<in> set (dentry_hashtable ?s (bucket ?s x)) \<and> q_hash (d_name x) = full_name_hash (nm_of x) (length (nm_of x))"
        using dentry_okD(8,9) [OF \<open>dentry_ok s c x\<close>] by (simp add: with_inode_def d_hash_def)
    qed (use dentry_okD(5) [OF \<open>dentry_ok s c x\<close>] in \<open>simp_all add: with_inode_def\<close>)
  qed
  moreover have "hash_ok ?s"
  proof -
    have "bucket ?s x = bucket s x" for x by (simp add: with_inode_def d_hash_def)
    then show ?thesis using dcache_wfD(5) [OF wf] by (simp add: hash_ok_def) (simp add: with_inode_def)
  qed
  moreover have "alias_ok ?s q i" if i: "inodes ?s q = Some i" for q i
  proof (cases "q = next_addr s")
    case True
    then show ?thesis using i j by (simp add: alias_ok_def with_inode_def)
  next
    case False
    then have "alias_ok s q i" using i dcache_wfD(6) [OF wf] by (simp add: with_inode_def)
    then show ?thesis by (simp add: alias_ok_def with_inode_def)
  qed
  moreover have "icache_wf ?s" by (rule with_inode_icache [OF dcache_wfD(1) [OF wf] b j(1-4)])
  ultimately show ?thesis using dcache_wfD(2,3,7,8,9) [OF wf] b by (auto simp: dcache_wf_def with_inode_def)
qed

lemma dcache_wf_upd_inode:
  assumes wf: "dcache_wf s" and p: "inodes s p = Some i" and j: "i_sb j = i_sb i" "quiet j" "i_hashed j = i_hashed i"
    "i_dentry j = i_dentry i" "i_count i \<le> i_count j"
  shows "dcache_wf (s\<lparr>inodes := (inodes s)(p \<mapsto> j)\<rparr>)" (is "dcache_wf ?s")
proof -
  have ai: "alias_ok s p i" by (rule dcache_wfD(6) [OF wf p])
  have "dentry_ok ?s c x" if x: "dentries s c = Some x" for c x
  proof -
    note ok = dcache_wfD(4) [OF wf x]
    show ?thesis
    proof (rule dentry_ok_transfer [OF ok])
      show "d_inode x \<noteq> 0 \<Longrightarrow> \<exists>i. inodes ?s (d_inode x) = Some i \<and> c \<in> set (i_dentry i)"
        using dentry_okD(7) [OF ok] p j(4) by auto
      show "\<not> d_unhashed x \<Longrightarrow> c \<in> set (dentry_hashtable ?s (bucket ?s x)) \<and> q_hash (d_name x) = full_name_hash (nm_of x) (length (nm_of x))"
        using dentry_okD(8,9) [OF ok] by (simp add: d_hash_def)
    qed (use dentry_okD(5) [OF ok] in simp_all)
  qed
  moreover have "hash_ok ?s" using dcache_wfD(5) [OF wf] by (simp add: hash_ok_def d_hash_def)
  moreover have "alias_ok ?s q k" if k: "inodes ?s q = Some k" for q k
    using k ai dcache_wfD(6) [OF wf, of q k] j(4,5) by (cases "q = p") (auto simp: alias_ok_def)
  moreover have "icache_wf ?s"
    using ai j by (intro icache_wf_upd_inode [OF dcache_wfD(1) [OF wf] p]) (auto simp: alias_ok_def)
  ultimately show ?thesis using dcache_wfD(2,3,7,8,9) [OF wf] by (auto simp: dcache_wf_def)
qed

lemma upd_dentry_eq: "dentries s p = Some d \<Longrightarrow> upd_dentry p f s = Some (s\<lparr>dentries := (dentries s)(p \<mapsto> f d)\<rparr>)"
  by simp

lemma upd_inode_eq: "inodes s p = Some i \<Longrightarrow> upd_inode p f s = Some (s\<lparr>inodes := (inodes s)(p \<mapsto> f i)\<rparr>)"
  by simp

lemma no_inode_0: "icache_wf s \<Longrightarrow> inodes s 0 = None"
  by (rule ccontr) (auto elim: inode_live)

lemma child_of_alloc:
  assumes "dcache_wf s" and "dentries s r = Some q"
  shows "child_of (s\<lparr>next_addr := a, dentries := (dentries s)(r \<mapsto> q\<lparr>d_count := d_count q + 1, d_subdirs := xs\<rparr>,
             next_addr s \<mapsto> fresh_dentry r b nm s), nr_dentry := n\<rparr>) k str c = child_of s k str c"
proof -
  have "dentries s (next_addr s) = None" by (rule dcache_wf_fresh [OF assms(1)])
  then show ?thesis using assms(2) by (auto simp: child_of_def d_unhashed_def fresh_dentry_def)
qed

lemma new_inode_wf:
  assumes wf: "icache_wf s" and h: "held s = {}" and b: "supers s sb = Some b"
  shows "\<exists>p s'. new_inode sb s = Some (p, s') \<and> icache_wf s' \<and> held s' = {} \<and>
    (if mem_ok s (next_addr s) then p \<noteq> 0 \<and> inodes s p = None \<and> inodes s' = (inodes s)(p \<mapsto> fresh_inode sb b s)
     else p = 0 \<and> inodes s' = inodes s)"
proof -
  have n: "0 < next_addr s" by (rule icache_wfD(1) [OF wf])
  show ?thesis
  proof (cases "mem_ok s (next_addr s)")
    case True
    have "new_inode sb s = Some (next_addr s, with_inode sb b (fresh_inode sb b s) s)"
      unfolding with_inode_def by (rule new_inode_ok) (use h True n b in simp_all)
    moreover have "icache_wf (with_inode sb b (fresh_inode sb b s) s)" by (rule with_inode_icache [OF wf b]) simp_all
    ultimately show ?thesis using True n h icache_wf_fresh(1) [OF wf] by (simp add: with_inode_def)
  next
    case False
    then show ?thesis using new_inode_fail [OF h False b] icache_wf_grow [OF wf, of 1] h by simp
  qed
qed

text \<open>A reference taken to a dentry that is there keeps the invariant.\<close>

lemma dget_wf:
  assumes "dcache_wf s" and "dentries s c = Some d"
  shows "dcache_wf (s\<lparr>dentries := (dentries s)(c \<mapsto> d\<lparr>d_count := d_count d + 1\<rparr>)\<rparr>)"
  by (rule dcache_wf_upd_dentry [OF assms])
    (use dentry_okD(5) [OF dcache_wfD(4) [OF assms]] in \<open>simp_all add: ext_refs_def d_unhashed_def\<close>)

lemma d_add_lookup:
  assumes wf: "dcache_wf s" and h: "held s = {}" and p: "dentries s p = Some d" "d_unhashed d" "d_inode d = 0"
    and nm: "qstr_ok (d_name d)" and none: "\<And>c. \<not> child_of s (d_parent d) (nm_of d) c"
    and i: "inodes s n = Some i" "int (length (i_dentry i)) < i_count i"
  shows "\<exists>s1 s2. d_add p n s = Some s1 \<and> dcache_wf s1 \<and> child_of s1 (d_parent d) (nm_of d) p \<and>
    d_lookup (d_parent d) (d_name d) s1 = Some (p, s2) \<and> dcache_wf s2"
proof -
  let ?d = "d\<lparr>d_inode := n\<rparr>"
  define u where "u = s\<lparr>inodes := (inodes s)(n \<mapsto> i\<lparr>i_dentry := p # i_dentry i\<rparr>), dentries := (dentries s)(p \<mapsto> ?d)\<rparr>"
  have iu: "d_instantiate p n s = Some u" unfolding u_def
    by (rule d_instantiate_ok [OF h p(1,3) no_inode_0 [OF dcache_wfD(1) [OF wf]] i(1)])
  have wu: "dcache_wf u" unfolding u_def by (rule d_instantiate_wf [OF wf p(1,3) i])
  have d: "d_unhashed ?d" "q_hash (d_name ?d) = full_name_hash (nm_of ?d) (length (nm_of ?d))"
    using p(2) nm by (simp_all add: d_unhashed_def qstr_ok_def)
  have pu: "held u = {}" "dentries u p = Some ?d" using h by (simp_all add: u_def)
  have nu: "\<not> child_of u (d_parent ?d) (nm_of ?d) c" for c
    using none [of c] d(1) p by (cases "c = p") (auto simp: child_of_def u_def)
  obtain t where t: "d_rehash p u = Some t" "dcache_wf t" "held t = {}" "rehashed p ?d u t"
    using d_rehash_wf [OF wu pu d nu] by blast
  have c: "child_of t (d_parent d) (nm_of d) p" using rehashed_child [OF t(4)] by simp
  obtain e where e: "dentries t p = Some e" using c by (auto simp: child_of_def)
  note hit = d_lookup_hit(2) [OF t(2,3) nm c e]
  show ?thesis using iu t(1,2) c hit dget_wf [OF t(2) e] by (auto simp: d_add_def)
qed

end
