(* ===== verification/Vfs.thy ===== *)
theory Vfs
  imports Dcache_Ops
begin

text \<open>
  The state of the virtual file system above the dentry cache: file-system types and modules,
  the list of superblocks, the numbers of unnamed devices, mounts, open files and the memory of
  the user process. The structs are those of \<^verbatim>\<open>include/linux/fs.h\<close> and
  \<^verbatim>\<open>include/linux/mount.h\<close>.

  The memory of the user process is a partial map from addresses to characters; an address
  outside its domain faults.
\<close>

record file_obj =
  f_dentry :: ptr
  f_vfsmnt :: ptr
  f_op :: file_operations
  f_mode :: "32 word"
  f_pos :: int
  private_data :: ptr

record vfsmount =
  mnt_parent :: ptr
  mnt_mountpoint :: ptr
  mnt_root :: ptr
  mnt_sb :: ptr
  mnt_mounts :: "ptr list"
  mnt_count :: int
  mnt_flags :: "32 word"
  mnt_expiry_mark :: int
  mnt_devname :: "string option"

datatype kill_sb_op = Kill_litter_super | Kill_anon_super

record file_system_type =
  fs_name :: string
  fs_flags :: "32 word"
  fs_kill_sb :: kill_sb_op
  fs_owner :: ptr
  fs_next :: ptr
  fs_supers :: "ptr list"

record module =
  m_live :: bool
  m_refcount :: int

record vfs = dcache +
  fstypes :: "ptr \<rightharpoonup> file_system_type"
  file_systems :: ptr
  modules :: "ptr \<rightharpoonup> module"
  super_blocks :: "ptr list"
  unnamed_dev_idr :: "nat list"
  mounts :: "ptr \<rightharpoonup> vfsmount"
  mount_hashtable :: "nat \<Rightarrow> ptr list"
  m_hash_bits :: nat
  m_hash_mask :: "32 word"
  files :: "ptr \<rightharpoonup> file_obj"
  umem :: "ptr \<rightharpoonup> char"

definition upd_fstype ::
  "ptr \<Rightarrow> (file_system_type \<Rightarrow> file_system_type) \<Rightarrow> 'a vfs_scheme \<Rightarrow> 'a vfs_scheme option" where
  "upd_fstype p f s = do { t \<leftarrow> fstypes s p; Some (s\<lparr>fstypes := (fstypes s)(p \<mapsto> f t)\<rparr>) }"

definition upd_mount :: "ptr \<Rightarrow> (vfsmount \<Rightarrow> vfsmount) \<Rightarrow> 'a vfs_scheme \<Rightarrow> 'a vfs_scheme option" where
  "upd_mount p f s = do { m \<leftarrow> mounts s p; Some (s\<lparr>mounts := (mounts s)(p \<mapsto> f m)\<rparr>) }"

definition upd_file :: "ptr \<Rightarrow> (file_obj \<Rightarrow> file_obj) \<Rightarrow> 'a vfs_scheme \<Rightarrow> 'a vfs_scheme option" where
  "upd_file p f s = do { x \<leftarrow> files s p; Some (s\<lparr>files := (files s)(p \<mapsto> f x)\<rparr>) }"

section \<open>Access to the memory of the user process\<close>

text \<open>
  \<^verbatim>\<open>copy_to_user\<close> and \<^verbatim>\<open>copy_from_user\<close> copy up to the first address that faults and
  return how many bytes they did not copy.
\<close>

fun copy_to_user :: "ptr \<Rightarrow> string \<Rightarrow> 'a vfs_scheme \<Rightarrow> nat \<times> 'a vfs_scheme" where
  "copy_to_user to' [] s = (0, s)"
| "copy_to_user to' (c # cs) s =
     (if to' \<in> dom (umem s) then copy_to_user (to' + 1) cs (s\<lparr>umem := (umem s)(to' \<mapsto> c)\<rparr>)
      else (Suc (length cs), s))"

fun copy_from_user :: "ptr \<Rightarrow> nat \<Rightarrow> 'a vfs_scheme \<Rightarrow> nat \<times> string" where
  "copy_from_user from' 0 s = (0, [])"
| "copy_from_user from' (Suc n) s =
     (case umem s from' of
        Some c \<Rightarrow> (let (left, cs) = copy_from_user (from' + 1) n s in (left, c # cs))
      | None \<Rightarrow> (Suc n, []))"

definition user_range :: "ptr \<Rightarrow> nat \<Rightarrow> ptr set" where
  "user_range a n = {a..<a + int n}"

definition user_string :: "ptr \<Rightarrow> nat \<Rightarrow> 'a vfs_scheme \<Rightarrow> string" where
  "user_string a n s = map (\<lambda>i. the (umem s (a + int i))) [0..<n]"

section \<open>Module references\<close>

definition try_module_get :: "ptr \<Rightarrow> 'a vfs_scheme \<Rightarrow> (bool \<times> 'a vfs_scheme) option" where
  "try_module_get m s =
     (if m = NULL then Some (True, s)
      else do {
        md \<leftarrow> modules s m;
        if m_live md
        then Some (True, s\<lparr>modules := (modules s)(m \<mapsto> md\<lparr>m_refcount := m_refcount md + 1\<rparr>)\<rparr>)
        else Some (False, s) })"

definition module_get :: "ptr \<Rightarrow> 'a vfs_scheme \<Rightarrow> 'a vfs_scheme option" where
  "module_get m s =
     (if m = NULL then Some s
      else do {
        md \<leftarrow> modules s m;
        if m_refcount md = 0 then None
        else Some (s\<lparr>modules := (modules s)(m \<mapsto> md\<lparr>m_refcount := m_refcount md + 1\<rparr>)\<rparr>) })"

definition module_put :: "ptr \<Rightarrow> 'a vfs_scheme \<Rightarrow> 'a vfs_scheme option" where
  "module_put m s =
     (if m = NULL then Some s
      else do {
        md \<leftarrow> modules s m;
        Some (s\<lparr>modules := (modules s)(m \<mapsto> md\<lparr>m_refcount := m_refcount md - 1\<rparr>)\<rparr>) })"

definition user_ok :: "ptr \<Rightarrow> nat \<Rightarrow> 'a vfs_scheme \<Rightarrow> bool" where
  "user_ok a n s \<longleftrightarrow> (\<forall>k<n. a + int k \<in> dom (umem s))"

section \<open>Copying to and from user space\<close>

lemma user_ok_Suc: "user_ok a (Suc n) s \<longleftrightarrow> a \<in> dom (umem s) \<and> user_ok (a + 1) n s"
  unfolding user_ok_def by (simp only: All_less_Suc2) (simp add: algebra_simps)

lemma copy_to_user_ok:
  "user_ok a (length cs) s \<Longrightarrow> \<exists>m. copy_to_user a cs s = (0, s\<lparr>umem := m\<rparr>) \<and> dom m = dom (umem s) \<and>
     (\<forall>k<length cs. m (a + int k) = Some (cs ! k)) \<and> (\<forall>x. x < a \<or> a + int (length cs) \<le> x \<longrightarrow> m x = umem s x)"
proof (induction cs arbitrary: a s)
  case Nil
  then show ?case by (auto intro!: exI [of _ "umem s"])
next
  case (Cons c cs)
  let ?s = "s\<lparr>umem := (umem s)(a \<mapsto> c)\<rparr>"
  have a: "a \<in> dom (umem s)" and u: "user_ok (a + 1) (length cs) s" using Cons.prems by (simp_all add: user_ok_Suc)
  from u have "user_ok (a + 1) (length cs) ?s" by (simp add: user_ok_def)
  from Cons.IH [OF this] obtain m where ih: "copy_to_user (a + 1) cs ?s = (0, ?s\<lparr>umem := m\<rparr>)"
      "dom m = dom (umem ?s)" and m: "\<forall>k<length cs. m (a + 1 + int k) = Some (cs ! k)"
      "\<forall>x. x < a + 1 \<or> a + 1 + int (length cs) \<le> x \<longrightarrow> m x = umem ?s x"
    by blast
  have c: "copy_to_user a (c # cs) s = (0, s\<lparr>umem := m\<rparr>)" "dom m = dom (umem s)"
    using ih a by (simp_all add: insert_absorb)
  have "m (a + int k) = Some ((c # cs) ! k)" if k: "k < Suc (length cs)" for k
    using k m by (cases k) (auto simp: algebra_simps)
  moreover have "m x = umem s x" if x: "x < a \<or> a + 1 + int (length cs) \<le> x" for x
    using m(2) x by auto
  ultimately show ?case using c by (intro exI [of _ m]) (simp add: algebra_simps)
qed

lemma copy_to_user_fault:
  "\<not> user_ok a (length cs) s \<Longrightarrow> fst (copy_to_user a cs s) \<noteq> 0"
proof (induction a cs s rule: copy_to_user.induct)
  case (2 a c cs s)
  have f: "user_ok (a + 1) (length cs) (s\<lparr>umem := (umem s)(a \<mapsto> c)\<rparr>) \<Longrightarrow> a \<in> dom (umem s)
    \<Longrightarrow> user_ok (a + 1) (length cs) s" by (auto simp: user_ok_def split: if_splits)
  show ?case
  proof (cases "a \<in> dom (umem s)")
    case True
    then have "\<not> user_ok (a + 1) (length cs) (s\<lparr>umem := (umem s)(a \<mapsto> c)\<rparr>)"
      using 2(2) f by (auto simp: user_ok_Suc)
    from 2(1) [OF True this] True show ?thesis by simp
  next
    case False
    then show ?thesis by simp
  qed
qed (simp add: user_ok_def)

lemma copy_from_user_ok:
  "\<forall>k<length cs. umem s (a + int k) = Some (cs ! k) \<Longrightarrow> copy_from_user a (length cs) s = (0, cs)"
proof (induction cs arbitrary: a)
  case (Cons c cs)
  have "umem s a = Some c" using Cons.prems by (auto dest: spec [of _ 0])
  moreover have "copy_from_user (a + 1) (length cs) s = (0, cs)"
  proof (rule Cons.IH, safe)
    fix k assume "k < length cs"
    then show "umem s (a + 1 + int k) = Some (cs ! k)"
      using Cons.prems [rule_format, of "Suc k"] by (simp add: algebra_simps)
  qed
  ultimately show ?case by simp
qed simp

end
