(* ===== verification/Libfs.thy ===== *)
theory Libfs
  imports Vfs
begin

text \<open>
  The library for in-memory file systems, \<^verbatim>\<open>fs/libfs.c\<close>: the operations on directories kept
  in the dentry cache, the superblock filler and the reads from a kernel buffer. The functions
  that mount, \<^verbatim>\<open>get_sb_pseudo\<close>, \<^verbatim>\<open>simple_pin_fs\<close> and \<^verbatim>\<open>simple_release_fs\<close>, are in
  \<open>Mount\<close>.
\<close>

section \<open>Attributes\<close>

record kstat =
  st_dev :: "32 word"
  st_ino :: "64 word"
  st_mode :: "16 word"
  st_nlink :: "32 word"
  st_uid :: "32 word"
  st_gid :: "32 word"
  st_rdev :: "32 word"
  st_atime :: timespec
  st_mtime :: timespec
  st_ctime :: timespec
  st_size :: int
  st_blocks :: "64 word"
  st_blksize :: "64 word"

definition generic_fillattr :: "ptr \<Rightarrow> 'a vfs_scheme \<Rightarrow> kstat option" where
  "generic_fillattr inode s = do {
     i \<leftarrow> inodes s inode;
     b \<leftarrow> supers s (i_sb i);
     Some \<lparr>st_dev = s_dev b, st_ino = i_ino i, st_mode = i_mode i, st_nlink = i_nlink i,
           st_uid = i_uid i, st_gid = i_gid i, st_rdev = i_rdev i, st_atime = i_atime i,
           st_mtime = i_mtime i, st_ctime = i_ctime i, st_size = i_size i,
           st_blocks = i_blocks i, st_blksize = i_blksize i\<rparr> }"

definition simple_getattr :: "ptr \<Rightarrow> 'a vfs_scheme \<Rightarrow> kstat option" where
  "simple_getattr dentry s = do {
     d \<leftarrow> dentries s dentry;
     stat \<leftarrow> generic_fillattr (d_inode d) s;
     i \<leftarrow> inodes s (d_inode d);
     Some (stat\<lparr>st_blocks := push_bit (PAGE_CACHE_SHIFT - 9) (of_nat (i_nrpages i))\<rparr>) }"

record kstatfs =
  f_type :: "64 word"
  f_bsize :: "64 word"
  f_namelen :: nat

definition simple_statfs :: "ptr \<Rightarrow> 'a vfs_scheme \<Rightarrow> kstatfs option" where
  "simple_statfs sb s = do {
     b \<leftarrow> supers s sb;
     Some \<lparr>f_type = s_magic b, f_bsize = PAGE_CACHE_SIZE, f_namelen = NAME_MAX\<rparr> }"

section \<open>Lookup\<close>

definition simple_delete_dentry :: "dentry \<Rightarrow> bool" where
  "simple_delete_dentry d = True"

definition simple_lookup :: "ptr \<Rightarrow> ptr \<Rightarrow> 'a vfs_scheme \<Rightarrow> (ptr \<times> 'a vfs_scheme) option" where
  "simple_lookup dir dentry s = do {
     d \<leftarrow> dentries s dentry;
     if q_len (d_name d) > NAME_MAX then Some (ERR_PTR (- ENAMETOOLONG), s)
     else do {
       s \<leftarrow> upd_dentry dentry (\<lambda>d. d\<lparr>d_op := Simple_dentry_operations\<rparr>) s;
       s \<leftarrow> d_add dentry NULL s;
       Some (NULL, s) } }"

text \<open>The method \<open>lookup\<close> of the tables of inode operations; calling a missing one is an oops.\<close>

definition i_op_lookup ::
  "inode_operations \<Rightarrow> ptr \<Rightarrow> ptr \<Rightarrow> 'a vfs_scheme \<Rightarrow> (ptr \<times> 'a vfs_scheme) option" where
  "i_op_lookup iop dir dentry s =
     (case iop of Simple_dir_inode_operations \<Rightarrow> simple_lookup dir dentry s | Empty_iops \<Rightarrow> None)"

definition simple_sync_file :: "ptr \<Rightarrow> ptr \<Rightarrow> int" where
  "simple_sync_file f dentry = 0"

section \<open>Directories as open files\<close>

definition dcache_dir_open :: "ptr \<Rightarrow> ptr \<Rightarrow> 'a vfs_scheme \<Rightarrow> (int \<times> 'a vfs_scheme) option" where
  "dcache_dir_open inode fl s = do {
     f \<leftarrow> files s fl;
     (cursor, s) \<leftarrow> d_alloc (f_dentry f) \<lparr>q_hash = 0, q_len = 1, q_name = ''.''\<rparr> s;
     s \<leftarrow> upd_file fl (\<lambda>f. f\<lparr>private_data := cursor\<rparr>) s;
     Some (if cursor \<noteq> NULL then 0 else - ENOMEM, s) }"

definition dcache_dir_close :: "ptr \<Rightarrow> ptr \<Rightarrow> 'a vfs_scheme \<Rightarrow> (int \<times> 'a vfs_scheme) option" where
  "dcache_dir_close inode fl s = do {
     f \<leftarrow> files s fl;
     s \<leftarrow> dput (private_data f) s;
     Some (0, s) }"

definition down_sem :: "ptr \<Rightarrow> 'a vfs_scheme \<Rightarrow> 'a vfs_scheme option" where
  "down_sem inode s = do {
     s \<leftarrow> might_sleep s;
     i \<leftarrow> inodes s inode;
     if i_sem i then None else upd_inode inode (\<lambda>i. i\<lparr>i_sem := True\<rparr>) s }"

definition up_sem :: "ptr \<Rightarrow> 'a vfs_scheme \<Rightarrow> 'a vfs_scheme option" where
  "up_sem inode s = upd_inode inode (\<lambda>i. i\<lparr>i_sem := False\<rparr>) s"

definition simple_positive :: "dentry \<Rightarrow> bool" where
  "simple_positive d \<longleftrightarrow> d_inode d \<noteq> NULL \<and> \<not> d_unhashed d"

text \<open>
  The loop of \<^verbatim>\<open>dcache_dir_lseek\<close> that passes \<open>n\<close> positive entries; the result is what it has
  passed and what is left.
\<close>

fun skip_positive :: "nat \<Rightarrow> ptr list \<Rightarrow> 'a vfs_scheme \<Rightarrow> (ptr list \<times> ptr list) option" where
  "skip_positive n [] s = Some ([], [])"
| "skip_positive 0 (p # ps) s = Some ([], p # ps)"
| "skip_positive (Suc n) (p # ps) s = do {
     d \<leftarrow> dentries s p;
     (xs, ys) \<leftarrow> skip_positive (if simple_positive d then n else Suc n) ps s;
     Some (p # xs, ys) }"

definition dcache_dir_lseek :: "ptr \<Rightarrow> int \<Rightarrow> int \<Rightarrow> 'a vfs_scheme \<Rightarrow> (int \<times> 'a vfs_scheme) option" where
  "dcache_dir_lseek fl offset origin s = do {
     f \<leftarrow> files s fl;
     d \<leftarrow> dentries s (f_dentry f);
     s \<leftarrow> down_sem (d_inode d) s;
     let offset = (if origin = 1 then offset + f_pos f else offset) in
     if (origin \<noteq> 0 \<and> origin \<noteq> 1) \<or> offset < 0 then do {
       s \<leftarrow> up_sem (d_inode d) s;
       Some (- EINVAL, s) }
     else do {
       s \<leftarrow> (if offset \<noteq> f_pos f then do {
               s \<leftarrow> upd_file fl (\<lambda>f. f\<lparr>f_pos := offset\<rparr>) s;
               if offset \<ge> 2 then do {
                 s \<leftarrow> spin_lock Dcache_lock s;
                 s \<leftarrow> d_child_del (private_data f) s;
                 q \<leftarrow> dentries s (f_dentry f);
                 (xs, ys) \<leftarrow> skip_positive (nat (offset - 2)) (d_subdirs q) s;
                 s \<leftarrow> upd_dentry (f_dentry f) (\<lambda>q. q\<lparr>d_subdirs := xs @ private_data f # ys\<rparr>) s;
                 spin_unlock Dcache_lock s }
               else Some s }
             else Some s);
       s \<leftarrow> up_sem (d_inode d) s;
       Some (offset, s) } }"

definition dt_type :: "inode \<Rightarrow> 16 word" where
  "dt_type i = drop_bit 12 (i_mode i) AND 15"

definition DT_DIR :: "16 word" where
  "DT_DIR = 4"

definition parent_ino :: "ptr \<Rightarrow> 'a vfs_scheme \<Rightarrow> (64 word \<times> 'a vfs_scheme) option" where
  "parent_ino dentry s = do {
     s \<leftarrow> spin_lock (D_lock dentry) s;
     d \<leftarrow> dentries s dentry;
     p \<leftarrow> dentries s (d_parent d);
     i \<leftarrow> inodes s (d_inode p);
     s \<leftarrow> spin_unlock (D_lock dentry) s;
     Some (i_ino i, s) }"

text \<open>
  \<^verbatim>\<open>filldir\<close> is the caller's: it gets the caller's buffer \<open>dirent\<close>, a name, a position, an inode
  number and a type, and a negative result stops the walk.
\<close>

type_synonym 'd filldir = "'d \<Rightarrow> string \<Rightarrow> int \<Rightarrow> 64 word \<Rightarrow> 16 word \<Rightarrow> int \<times> 'd"

text \<open>
  The loop of \<^verbatim>\<open>dcache_readdir\<close>, over the entries \<open>ps\<close> that follow the cursor: each entry given
  out has the cursor moved behind it.
\<close>

definition cursor_after :: "ptr \<Rightarrow> ptr \<Rightarrow> ptr list \<Rightarrow> ptr list" where
  "cursor_after cursor p xs =
     (let ys = removeAll cursor xs in takeWhile (\<lambda>x. x \<noteq> p) ys @ p # cursor # after p ys)"

fun readdir_loop ::
  "'d filldir \<Rightarrow> ptr \<Rightarrow> ptr \<Rightarrow> ptr \<Rightarrow> ptr list \<Rightarrow> 'd \<Rightarrow> 'a vfs_scheme \<Rightarrow> ('d \<times> 'a vfs_scheme) option" where
  "readdir_loop filldir fl dentry cursor [] dirent s = do {
     s \<leftarrow> spin_unlock Dcache_lock s;
     Some (dirent, s) }"
| "readdir_loop filldir fl dentry cursor (p # ps) dirent s = do {
     d \<leftarrow> dentries s p;
     if \<not> simple_positive d then readdir_loop filldir fl dentry cursor ps dirent s
     else do {
       s \<leftarrow> spin_unlock Dcache_lock s;
       f \<leftarrow> files s fl;
       i \<leftarrow> inodes s (d_inode d);
       let (r, dirent) = filldir dirent (take (q_len (d_name d)) (q_name (d_name d))) (f_pos f)
                           (i_ino i) (dt_type i) in
       if r < 0 then Some (dirent, s)
       else do {
         s \<leftarrow> spin_lock Dcache_lock s;
         s \<leftarrow> upd_dentry dentry (\<lambda>q. q\<lparr>d_subdirs := cursor_after cursor p (d_subdirs q)\<rparr>) s;
         s \<leftarrow> upd_file fl (\<lambda>f. f\<lparr>f_pos := f_pos f + 1\<rparr>) s;
         readdir_loop filldir fl dentry cursor ps dirent s } } }"

definition readdir_entries ::
  "'d filldir \<Rightarrow> ptr \<Rightarrow> 'd \<Rightarrow> 'a vfs_scheme \<Rightarrow> ('d \<times> 'a vfs_scheme) option" where
  "readdir_entries filldir fl dirent s = do {
     f \<leftarrow> files s fl;
     s \<leftarrow> spin_lock Dcache_lock s;
     s \<leftarrow> (if f_pos f = 2
           then upd_dentry (f_dentry f) (\<lambda>q. q\<lparr>d_subdirs :=
                  private_data f # removeAll (private_data f) (d_subdirs q)\<rparr>) s
           else Some s);
     q \<leftarrow> dentries s (f_dentry f);
     readdir_loop filldir fl (f_dentry f) (private_data f)
       (after (private_data f) (d_subdirs q)) dirent s }"

definition readdir_dotdot ::
  "'d filldir \<Rightarrow> ptr \<Rightarrow> 'd \<Rightarrow> 'a vfs_scheme \<Rightarrow> ('d \<times> 'a vfs_scheme) option" where
  "readdir_dotdot filldir fl dirent s = do {
     f \<leftarrow> files s fl;
     (ino, s) \<leftarrow> parent_ino (f_dentry f) s;
     let (r, dirent) = filldir dirent ''..'' 1 ino DT_DIR in
     if r < 0 then Some (dirent, s)
     else do {
       s \<leftarrow> upd_file fl (\<lambda>f. f\<lparr>f_pos := f_pos f + 1\<rparr>) s;
       readdir_entries filldir fl dirent s } }"

definition dcache_readdir ::
  "'d filldir \<Rightarrow> ptr \<Rightarrow> 'd \<Rightarrow> 'a vfs_scheme \<Rightarrow> ((int \<times> 'd) \<times> 'a vfs_scheme) option" where
  "dcache_readdir filldir fl dirent s = do {
     f \<leftarrow> files s fl;
     (dirent, s) \<leftarrow>
       (if f_pos f = 0 then do {
          d \<leftarrow> dentries s (f_dentry f);
          i \<leftarrow> inodes s (d_inode d);
          let (r, dirent) = filldir dirent ''.'' 0 (i_ino i) DT_DIR in
          if r < 0 then Some (dirent, s)
          else do {
            s \<leftarrow> upd_file fl (\<lambda>f. f\<lparr>f_pos := f_pos f + 1\<rparr>) s;
            readdir_dotdot filldir fl dirent s } }
        else if f_pos f = 1 then readdir_dotdot filldir fl dirent s
        else readdir_entries filldir fl dirent s);
     Some ((0, dirent), s) }"

definition generic_read_dir :: "ptr \<Rightarrow> ptr \<Rightarrow> 64 word \<Rightarrow> int" where
  "generic_read_dir fl buf siz = - EISDIR"

section \<open>Links, removal and renaming\<close>

definition simple_link :: "ptr \<Rightarrow> ptr \<Rightarrow> ptr \<Rightarrow> 'a vfs_scheme \<Rightarrow> (int \<times> 'a vfs_scheme) option" where
  "simple_link old_dentry dir dentry s = do {
     od \<leftarrow> dentries s old_dentry;
     let inode = d_inode od; now = cur_time s in do {
     s \<leftarrow> upd_inode dir (\<lambda>i. i\<lparr>i_mtime := now, i_ctime := now\<rparr>) s;
     s \<leftarrow> upd_inode inode (\<lambda>i. i\<lparr>i_ctime := now\<rparr>) s;
     s \<leftarrow> upd_inode inode (\<lambda>i. i\<lparr>i_nlink := i_nlink i + 1\<rparr>) s;
     s \<leftarrow> upd_inode inode (\<lambda>i. i\<lparr>i_count := i_count i + 1\<rparr>) s;
     s \<leftarrow> dget dentry s;
     s \<leftarrow> d_instantiate dentry inode s;
     Some (0, s) } }"

fun no_positive :: "ptr list \<Rightarrow> 'a vfs_scheme \<Rightarrow> bool option" where
  "no_positive [] s = Some True"
| "no_positive (child # cs) s = do {
     d \<leftarrow> dentries s child;
     if simple_positive d then Some False else no_positive cs s }"

definition simple_empty :: "ptr \<Rightarrow> 'a vfs_scheme \<Rightarrow> (bool \<times> 'a vfs_scheme) option" where
  "simple_empty dentry s = do {
     s \<leftarrow> spin_lock Dcache_lock s;
     d \<leftarrow> dentries s dentry;
     r \<leftarrow> no_positive (d_subdirs d) s;
     s \<leftarrow> spin_unlock Dcache_lock s;
     Some (r, s) }"

definition simple_unlink :: "ptr \<Rightarrow> ptr \<Rightarrow> 'a vfs_scheme \<Rightarrow> (int \<times> 'a vfs_scheme) option" where
  "simple_unlink dir dentry s = do {
     d \<leftarrow> dentries s dentry;
     let inode = d_inode d; now = cur_time s in do {
     s \<leftarrow> upd_inode dir (\<lambda>i. i\<lparr>i_mtime := now, i_ctime := now\<rparr>) s;
     s \<leftarrow> upd_inode inode (\<lambda>i. i\<lparr>i_ctime := now\<rparr>) s;
     s \<leftarrow> upd_inode inode (\<lambda>i. i\<lparr>i_nlink := i_nlink i - 1\<rparr>) s;
     s \<leftarrow> dput dentry s;
     Some (0, s) } }"

definition simple_rmdir :: "ptr \<Rightarrow> ptr \<Rightarrow> 'a vfs_scheme \<Rightarrow> (int \<times> 'a vfs_scheme) option" where
  "simple_rmdir dir dentry s = do {
     (empty, s) \<leftarrow> simple_empty dentry s;
     if \<not> empty then Some (- ENOTEMPTY, s)
     else do {
       d \<leftarrow> dentries s dentry;
       s \<leftarrow> upd_inode (d_inode d) (\<lambda>i. i\<lparr>i_nlink := i_nlink i - 1\<rparr>) s;
       (r, s) \<leftarrow> simple_unlink dir dentry s;
       s \<leftarrow> upd_inode dir (\<lambda>i. i\<lparr>i_nlink := i_nlink i - 1\<rparr>) s;
       Some (0, s) } }"

definition simple_rename ::
  "ptr \<Rightarrow> ptr \<Rightarrow> ptr \<Rightarrow> ptr \<Rightarrow> 'a vfs_scheme \<Rightarrow> (int \<times> 'a vfs_scheme) option" where
  "simple_rename old_dir old_dentry new_dir new_dentry s = do {
     od \<leftarrow> dentries s old_dentry;
     oi \<leftarrow> inodes s (d_inode od);
     let they_are_dirs = S_ISDIR (i_mode oi) in do {
     (empty, s) \<leftarrow> simple_empty new_dentry s;
     if \<not> empty then Some (- ENOTEMPTY, s)
     else do {
       nd \<leftarrow> dentries s new_dentry;
       s \<leftarrow> (if d_inode nd \<noteq> NULL then do {
               (r, s) \<leftarrow> simple_unlink new_dir new_dentry s;
               if they_are_dirs then upd_inode old_dir (\<lambda>i. i\<lparr>i_nlink := i_nlink i - 1\<rparr>) s
               else Some s }
             else if they_are_dirs then do {
               s \<leftarrow> upd_inode old_dir (\<lambda>i. i\<lparr>i_nlink := i_nlink i - 1\<rparr>) s;
               upd_inode new_dir (\<lambda>i. i\<lparr>i_nlink := i_nlink i + 1\<rparr>) s }
             else Some s);
       let now = cur_time s in do {
       s \<leftarrow> upd_inode (d_inode od) (\<lambda>i. i\<lparr>i_ctime := now\<rparr>) s;
       s \<leftarrow> upd_inode new_dir (\<lambda>i. i\<lparr>i_mtime := now, i_ctime := now\<rparr>) s;
       s \<leftarrow> upd_inode old_dir (\<lambda>i. i\<lparr>i_mtime := now, i_ctime := now\<rparr>) s;
       Some (0, s) } } } }"

section \<open>Filling a superblock\<close>

text \<open>
  An entry of the table \<^verbatim>\<open>files\<close>; a \<open>None\<close> name is a hole, and the table ends before the first
  entry with an empty name.
\<close>

record tree_descr =
  td_name :: "string option"
  td_ops :: file_operations
  td_mode :: "16 word"

definition simple_init_inode ::
  "16 word \<Rightarrow> ptr \<Rightarrow> 'a vfs_scheme \<Rightarrow> 'a vfs_scheme option" where
  "simple_init_inode mode inode s = upd_inode inode (\<lambda>i. i\<lparr>i_mode := mode, i_uid := 0, i_gid := 0,
     i_blksize := PAGE_CACHE_SIZE, i_blocks := 0,
     i_atime := cur_time s, i_mtime := cur_time s, i_ctime := cur_time s\<rparr>) s"

text \<open>The loop over the table. The result is true when all files were made.\<close>

fun fill_files ::
  "ptr \<Rightarrow> ptr \<Rightarrow> nat \<Rightarrow> tree_descr list \<Rightarrow> 'a vfs_scheme \<Rightarrow> (bool \<times> 'a vfs_scheme) option" where
  "fill_files sb root i [] s = Some (True, s)"
| "fill_files sb root i (f # fs) s =
     (case td_name f of
        None \<Rightarrow> fill_files sb root (i + 1) fs s
      | Some nm \<Rightarrow>
          if nm = [] then Some (True, s)
          else do {
            (dentry, s) \<leftarrow> d_alloc_name root nm s;
            if dentry = NULL then Some (False, s)
            else do {
              (inode, s) \<leftarrow> new_inode sb s;
              if inode = NULL then Some (False, s)
              else do {
                s \<leftarrow> simple_init_inode (S_IFREG OR td_mode f) inode s;
                s \<leftarrow> upd_inode inode (\<lambda>n. n\<lparr>i_fop := td_ops f, i_ino := of_nat i\<rparr>) s;
                s \<leftarrow> d_add dentry inode s;
                fill_files sb root (i + 1) fs s } } })"

definition simple_fill_super ::
  "ptr \<Rightarrow> 64 word \<Rightarrow> tree_descr list \<Rightarrow> 'a vfs_scheme \<Rightarrow> (int \<times> 'a vfs_scheme) option" where
  "simple_fill_super sb magic fs s = do {
     s \<leftarrow> upd_super sb (\<lambda>b. b\<lparr>s_blocksize := PAGE_CACHE_SIZE, s_blocksize_bits := PAGE_CACHE_SHIFT,
            s_magic := magic, s_op := Simple_s_ops, s_time_gran := 1\<rparr>) s;
     (inode, s) \<leftarrow> new_inode sb s;
     if inode = NULL then Some (- ENOMEM, s)
     else do {
       s \<leftarrow> simple_init_inode (S_IFDIR OR 0x1ED) inode s;
       s \<leftarrow> upd_inode inode (\<lambda>i. i\<lparr>i_op := Simple_dir_inode_operations,
              i_fop := Simple_dir_operations\<rparr>) s;
       (root, s) \<leftarrow> d_alloc_root inode s;
       if root = NULL then do {
         s \<leftarrow> iput inode s;
         Some (- ENOMEM, s) }
       else do {
         (ok, s) \<leftarrow> fill_files sb root 0 fs s;
         if ok then do {
           s \<leftarrow> upd_super sb (\<lambda>b. b\<lparr>s_root := root\<rparr>) s;
           Some (0, s) }
         else do {
           s \<leftarrow> d_genocide root s;
           s \<leftarrow> dput root s;
           Some (- ENOMEM, s) } } } }"

section \<open>Reading from a kernel buffer\<close>

text \<open>
  The position is passed by reference: the result carries its new value. \<^verbatim>\<open>available\<close> is
  unsigned, and a non-negative \<^verbatim>\<open>pos\<close> keeps its value when it is compared with it.
\<close>

definition simple_read_from_buffer ::
  "ptr \<Rightarrow> nat \<Rightarrow> int \<Rightarrow> string \<Rightarrow> nat \<Rightarrow> 'a vfs_scheme \<Rightarrow> (int \<times> int) \<times> 'a vfs_scheme" where
  "simple_read_from_buffer to' count ppos from' available s =
     (if ppos < 0 then ((- EINVAL, ppos), s)
      else if ppos \<ge> int available then ((0, ppos), s)
      else
        let pos = nat ppos;
            count = (if count > available - pos then available - pos else count);
            (left, s) = copy_to_user to' (take count (drop pos from')) s
        in if left \<noteq> 0 then ((- EFAULT, ppos), s)
           else ((int count, ppos + int count), s))"

text \<open>The state after the times of the directory and the link count of the inode of an unlinked entry have been set.\<close>

definition unlinking :: "ptr \<Rightarrow> ptr \<Rightarrow> inode \<Rightarrow> inode \<Rightarrow> 'a icache_scheme \<Rightarrow> 'a icache_scheme" where
  "unlinking dir n di i s = s\<lparr>inodes := (inodes s)(dir \<mapsto> di\<lparr>i_mtime := cur_time s, i_ctime := cur_time s\<rparr>,
     n \<mapsto> i\<lparr>i_ctime := cur_time s, i_nlink := i_nlink i - 1\<rparr>)\<rparr>"

text \<open>A \<^verbatim>\<open>filldir\<close> that takes every entry.\<close>

definition listing :: "(string \<times> int \<times> 64 word \<times> 16 word) list filldir" where
  "listing es nm pos ino ty = (0, es @ [(nm, pos, ino, ty)])"

definition entry_name :: "'a dcache_scheme \<Rightarrow> ptr \<Rightarrow> string" where
  "entry_name s p = nm_of (the (dentries s p))"

definition is_entry :: "'a dcache_scheme \<Rightarrow> ptr \<Rightarrow> bool" where
  "is_entry s p \<longleftrightarrow> (\<exists>d. dentries s p = Some d \<and> simple_positive d)"

section \<open>Reads from a buffer\<close>

lemma simple_read_cases:
  obtains "pos < 0" "simple_read_from_buffer a n pos str (length str) s = ((- EINVAL, pos), s)"
  | "int (length str) \<le> pos" "simple_read_from_buffer a n pos str (length str) s = ((0, pos), s)"
  | k m where "0 \<le> pos" "pos < int (length str)" "k = min n (length str - nat pos)" "user_ok a k s"
      "simple_read_from_buffer a n pos str (length str) s = ((int k, pos + int k), s\<lparr>umem := m\<rparr>)"
      "dom m = dom (umem s)" "\<forall>j<k. m (a + int j) = Some (str ! (nat pos + j))"
      "\<forall>x. x < a \<or> a + int k \<le> x \<longrightarrow> m x = umem s x"
  | s' where "0 \<le> pos" "pos < int (length str)" "\<not> user_ok a (min n (length str - nat pos)) s"
      "simple_read_from_buffer a n pos str (length str) s = ((- EFAULT, pos), s')"
proof -
  let ?k = "min n (length str - nat pos)"
  let ?cs = "take ?k (drop (nat pos) str)"
  consider "pos < 0" | "int (length str) \<le> pos" | "0 \<le> pos" "pos < int (length str)" by linarith
  then show thesis
  proof cases
    case 1
    then show thesis using that(1) by (simp add: simple_read_from_buffer_def)
  next
    case 2
    then show thesis using that(2) by (simp add: simple_read_from_buffer_def)
  next
    case 3
    have len: "length ?cs = ?k" by simp
    have c: "(if n > length str - nat pos then length str - nat pos else n) = ?k" by simp
    show thesis
    proof (cases "user_ok a ?k s")
      case True
      then obtain m where m: "copy_to_user a ?cs s = (0, s\<lparr>umem := m\<rparr>)" "dom m = dom (umem s)"
        "\<forall>j<?k. m (a + int j) = Some (?cs ! j)" "\<forall>x. x < a \<or> a + int ?k \<le> x \<longrightarrow> m x = umem s x"
        using copy_to_user_ok [of a ?cs s] unfolding len by blast
      show thesis
        by (rule that(3) [OF 3 refl True _ m(2) _ m(4)])
          (use 3 m(1,3) in \<open>simp_all add: simple_read_from_buffer_def Let_def min_def split: if_splits\<close>)
    next
      case False
      then have "fst (copy_to_user a ?cs s) \<noteq> 0" using copy_to_user_fault [of a ?cs s] len by simp
      then show thesis
        by (intro that(4) [OF 3 False, of "snd (copy_to_user a ?cs s)"])
          (use 3 in \<open>auto simp: simple_read_from_buffer_def Let_def min_def split: if_splits prod.splits\<close>)
    qed
  qed
qed

lemma simple_read_bounds:
  assumes "simple_read_from_buffer a n pos str (length str) s = ((r, pos'), s')"
  shows "r \<in> {- EINVAL, - EFAULT} \<and> pos' = pos \<or> 0 \<le> r \<and> r \<le> int n \<and> pos' = pos + r \<and> (0 < r \<longrightarrow> pos' \<le> int (length str))"
  using assms by (cases rule: simple_read_cases [of pos a n str s]) auto

lemma user_ok_mono: "user_ok a n s \<Longrightarrow> k \<le> n \<Longrightarrow> user_ok a k s"
  by (simp add: user_ok_def)

lemma simple_read_ok:
  assumes p: "pos < length str" and u: "user_ok a n s"
  obtains m where
    "simple_read_from_buffer a n (int pos) str (length str) s =
       ((int (min n (length str - pos)), int (pos + min n (length str - pos))), s\<lparr>umem := m\<rparr>)"
    "dom m = dom (umem s)" "\<forall>j<min n (length str - pos). m (a + int j) = Some (str ! (pos + j))"
proof (cases rule: simple_read_cases [of "int pos" a n str s])
  case 1
  then show thesis by simp
next
  case 2
  then show thesis using p by simp
next
  case (3 k m)
  show thesis by (rule that [of m]) (use 3 in simp_all)
next
  case 4
  then show thesis using user_ok_mono [OF u, of "min n (length str - pos)"] by simp
qed

section \<open>Removing and linking entries\<close>

lemma no_positive_child:
  assumes wf: "dcache_wf s" and d: "dentries s p = Some d"
  shows "set cs \<subseteq> set (d_subdirs d) \<Longrightarrow>
    no_positive cs s = Some (\<forall>c\<in>set cs. \<forall>e. dentries s c = Some e \<longrightarrow> \<not> simple_positive e)"
proof (induction cs)
  case (Cons c cs)
  then have "c \<in> set (d_subdirs d)" by simp
  then obtain e where e: "dentries s c = Some e" using dentry_okD(6) [OF dcache_wfD(4) [OF wf d], of c] by blast
  then show ?case using Cons by auto
qed simp

lemma simple_empty_ok:
  assumes wf: "dcache_wf s" and h: "held s = {}" and p: "dentries s p = Some d" "d_parent d = p \<Longrightarrow> d_unhashed d"
  shows "simple_empty p s = Some (\<not> (\<exists>nm c e. child_of s p nm c \<and> dentries s c = Some e \<and> d_inode e \<noteq> 0), s)"
proof -
  have "(\<exists>c\<in>set (d_subdirs d). \<exists>e. dentries s c = Some e \<and> simple_positive e) \<longleftrightarrow>
      (\<exists>nm c e. child_of s p nm c \<and> dentries s c = Some e \<and> d_inode e \<noteq> 0)" (is "?l \<longleftrightarrow> ?r")
  proof
    assume ?l
    then obtain c e where c: "c \<in> set (d_subdirs d)" "dentries s c = Some e" "simple_positive e" by blast
    then have "child_of s p (nm_of e) c"
      using dentry_okD(6) [OF dcache_wfD(4) [OF wf p(1)] c(1)] by (auto simp: child_of_def simple_positive_def)
    then show ?r using c by (auto simp: simple_positive_def)
  next
    assume ?r
    then obtain nm c e where c: "child_of s p nm c" "dentries s c = Some e" "d_inode e \<noteq> 0" by blast
    then have e: "d_parent e = p" "simple_positive e" by (auto simp: child_of_def simple_positive_def)
    then have "p \<noteq> c" using p c by (auto simp: simple_positive_def)
    then have "c \<in> set (d_subdirs d)" using dentry_okD(3) [OF dcache_wfD(4) [OF wf c(2)]] e(1) p(1) by auto
    then show ?l using c(2) e(2) by blast
  qed
  moreover have "no_positive cs (held_update f s) = no_positive cs s" for cs f
    by (induction cs) (auto cong: if_cong intro!: Option.bind_cong)
  ultimately show ?thesis using h p(1) no_positive_child [OF wf p(1), of "d_subdirs d"]
    by (auto simp: simple_empty_def lock_simps)
qed

lemma simple_rmdir_occupied:
  assumes wf: "dcache_wf s" and h: "held s = {}" and p: "dentries s p = Some d" "d_parent d = p \<Longrightarrow> d_unhashed d"
    and c: "child_of s p nm c" "dentries s c = Some e" "d_inode e \<noteq> 0"
  shows "simple_rmdir dir p s = Some (- ENOTEMPTY, s)"
    "dentries s o' = Some od \<Longrightarrow> inodes s (d_inode od) = Some oi \<Longrightarrow> simple_rename old_dir o' dir p s = Some (- ENOTEMPTY, s)"
proof -
  have "simple_empty p s = Some (False, s)" using simple_empty_ok [OF wf h p] c by auto
  then show "simple_rmdir dir p s = Some (- ENOTEMPTY, s)"
    "dentries s o' = Some od \<Longrightarrow> inodes s (d_inode od) = Some oi \<Longrightarrow> simple_rename old_dir o' dir p s = Some (- ENOTEMPTY, s)"
    by (simp_all add: simple_rmdir_def simple_rename_def)
qed

lemma unlinking_wf:
  assumes wf: "dcache_wf s" and i: "inodes s dir = Some di" "inodes s n = Some i" "dir \<noteq> n"
  shows "dcache_wf (unlinking dir n di i s)"
proof -
  have q: "quiet di" "quiet i" using inode_live [OF dcache_wfD(1) [OF wf] i(1)] inode_live [OF dcache_wfD(1) [OF wf] i(2)] by blast+
  have "dcache_wf (s\<lparr>inodes := (inodes s)(dir \<mapsto> di\<lparr>i_mtime := cur_time s, i_ctime := cur_time s\<rparr>)\<rparr>)" (is "dcache_wf ?s")
    by (rule dcache_wf_upd_inode [OF wf i(1)]) (use q in \<open>simp_all add: quiet_def\<close>)
  from dcache_wf_upd_inode [OF this, of n i "i\<lparr>i_ctime := cur_time s, i_nlink := i_nlink i - 1\<rparr>"] q i
  show ?thesis by (simp add: unlinking_def quiet_def)
qed

lemma simple_unlink_safe:
  assumes wf: "dcache_wf s" and h: "held s = {}" and p: "dentries s p = Some d" "0 < ext_refs d"
    and i: "inodes s dir = Some di" "inodes s (d_inode d) = Some i" "dir \<noteq> d_inode d"
  shows "\<exists>s'. simple_unlink dir p s = Some (0, s') \<and> dput_post p (unlinking dir (d_inode d) di i s) s'"
proof -
  let ?u = "unlinking dir (d_inode d) di i s"
  have u: "held ?u = {}" "dentries ?u p = Some d" using h p by (simp_all add: unlinking_def)
  obtain s' where s': "dput p ?u = Some s'" "dput_post p ?u s'"
    using dput_total [OF unlinking_wf [OF wf i] u p(2)] by blast
  then show ?thesis using p(1) i
    by (auto simp: simple_unlink_def unlinking_def Let_def upd_inode_eq simp del: upd_inode_Some)
qed

text \<open>A hard link: the new entry is one more alias of the inode, which has one link and one reference more.\<close>

lemma simple_link_ok:
  assumes wf: "dcache_wf s" and h: "held s = {}" and o: "dentries s old = Some od" "inodes s (d_inode od) = Some i"
    and di: "inodes s dir = Some di" "dir \<noteq> d_inode od" and p: "dentries s p = Some d" "d_inode d = 0" "d_count d \<noteq> 0"
  shows "\<exists>s'. simple_link old dir p s = Some (0, s') \<and> dcache_wf s' \<and> held s' = {} \<and>
    dentries s' = (dentries s)(p \<mapsto> d\<lparr>d_inode := d_inode od, d_count := d_count d + 1\<rparr>) \<and>
    inodes s' = (inodes s)(dir \<mapsto> di\<lparr>i_mtime := cur_time s, i_ctime := cur_time s\<rparr>,
      d_inode od \<mapsto> i\<lparr>i_ctime := cur_time s, i_nlink := i_nlink i + 1, i_count := i_count i + 1, i_dentry := p # i_dentry i\<rparr>)"
proof -
  let ?n = "d_inode od" and ?now = "cur_time s"
  let ?di = "di\<lparr>i_mtime := ?now, i_ctime := ?now\<rparr>" and ?i = "i\<lparr>i_ctime := ?now, i_nlink := i_nlink i + 1, i_count := i_count i + 1\<rparr>"
  have q: "quiet di" "quiet i" using inode_live [OF dcache_wfD(1) [OF wf] di(1)] inode_live [OF dcache_wfD(1) [OF wf] o(2)] by blast+
  have p0: "p \<noteq> 0" using dentry_okD(1) [OF dcache_wfD(4) [OF wf p(1)]] by simp
  define u where "u = s\<lparr>inodes := (inodes s)(dir \<mapsto> ?di)\<rparr>"
  define v where "v = u\<lparr>inodes := (inodes u)(?n \<mapsto> ?i)\<rparr>"
  define w where "w = v\<lparr>dentries := (dentries v)(p \<mapsto> d\<lparr>d_count := d_count d + 1\<rparr>)\<rparr>"
  have "dcache_wf u" unfolding u_def by (rule dcache_wf_upd_inode [OF wf di(1)]) (use q in \<open>simp_all add: quiet_def\<close>)
  then have wv: "dcache_wf v" unfolding v_def
    by (rule dcache_wf_upd_inode [where i = i]) (use q o di(2) in \<open>simp_all add: quiet_def u_def\<close>)
  then have ww: "dcache_wf w" unfolding w_def by (rule dget_wf) (simp add: v_def u_def p)
  have wf0: "held w = {}" "dentries w p = Some (d\<lparr>d_count := d_count d + 1\<rparr>)" "inodes w ?n = Some ?i" "inodes w 0 = None"
    using h no_inode_0 [OF dcache_wfD(1) [OF ww]] by (simp_all add: w_def v_def u_def)
  define x where "x = w\<lparr>inodes := (inodes w)(?n \<mapsto> ?i\<lparr>i_dentry := p # i_dentry ?i\<rparr>),
      dentries := (dentries w)(p \<mapsto> (d\<lparr>d_count := d_count d + 1\<rparr>)\<lparr>d_inode := ?n\<rparr>)\<rparr>"
  have ix: "d_instantiate p ?n w = Some x" unfolding x_def
    by (rule d_instantiate_ok) (use wf0 p(2) in simp_all)
  have al: "int (length (i_dentry i)) \<le> i_count i" using dcache_wfD(6) [OF wf o(2)] by (simp add: alias_ok_def)
  have "dcache_wf x" unfolding x_def by (rule d_instantiate_wf [OF ww wf0(2) _ wf0(3)]) (use p(2) al in simp_all)
  moreover have "dget p v = Some w" using p p0 by (simp add: dget_def w_def v_def u_def upd_dentry_eq del: upd_dentry_Some)
  then have "simple_link old dir p s = Some (0, x)"
    using o di ix by (simp add: simple_link_def Let_def upd_inode_eq v_def u_def del: upd_inode_Some)
  moreover have "held x = {}" using h by (simp add: x_def w_def v_def u_def)
  ultimately show ?thesis by (auto simp: x_def w_def v_def u_def)
qed

section \<open>Listing a directory\<close>

lemma readdir_loop_lists:
  assumes "\<And>p. p \<in> set ps \<Longrightarrow> p \<noteq> r \<and> (\<exists>d. dentries s p = Some d \<and> q_len (d_name d) = length (nm_of d) \<and>
      (simple_positive d \<longrightarrow> (\<exists>i. inodes s (d_inode d) = Some i)))"
    and "held s = {Dcache_lock}" and "files s fl = Some f" and "dentries s r = Some q"
  shows "\<exists>out s'. readdir_loop listing fl r cursor ps es s = Some (es @ out, s') \<and> held s' = {} \<and>
    map fst out = map (entry_name s) (filter (is_entry s) ps)"
  using assms
proof (induction ps arbitrary: s f q es)
  case Nil
  then show ?case by simp
next
  case (Cons p ps)
  obtain d where d: "p \<noteq> r" "dentries s p = Some d" "q_len (d_name d) = length (nm_of d)"
      "simple_positive d \<Longrightarrow> \<exists>i. inodes s (d_inode d) = Some i" using Cons.prems(1) [of p] by auto
  have en: "entry_name s p = nm_of d" "is_entry s p \<longleftrightarrow> simple_positive d" using d(2) by (simp_all add: entry_name_def is_entry_def)
  show ?case
  proof (cases "simple_positive d")
    case False
    then show ?thesis using Cons.IH [of s f q es] Cons.prems d(2) en by auto
  next
    case True
    then obtain i where i: "inodes s (d_inode d) = Some i" using d(4) by blast
    define u where "u = s\<lparr>dentries := (dentries s)(r \<mapsto> q\<lparr>d_subdirs := cursor_after cursor p (d_subdirs q)\<rparr>),
       files := (files s)(fl \<mapsto> f\<lparr>f_pos := f_pos f + 1\<rparr>)\<rparr>"
    let ?e = "(nm_of d, f_pos f, i_ino i, dt_type i)"
    have step: "readdir_loop listing fl r cursor (p # ps) es s = readdir_loop listing fl r cursor ps (es @ [?e]) u"
    proof -
      have hi: "held_update (insert Dcache_lock) s = s" by (rule held_idem) (simp add: Cons.prems(2))
      show ?thesis using True d i Cons.prems(2-4)
        by (simp add: listing_def lock_simps hi upd_file_def u_def upd_dentry_eq del: upd_dentry_Some)
    qed
    have same: "entry_name u x = entry_name s x" "is_entry u x = is_entry s x" if "x \<in> set ps" for x
      using Cons.prems(1) [of x] that by (simp_all add: entry_name_def is_entry_def u_def)
    have "\<exists>out s'. readdir_loop listing fl r cursor ps (es @ [?e]) u = Some ((es @ [?e]) @ out, s') \<and> held s' = {} \<and>
        map fst out = map (entry_name u) (filter (is_entry u) ps)"
      by (rule Cons.IH) (use Cons.prems in \<open>auto simp: u_def\<close>)
    then obtain out s' where o: "readdir_loop listing fl r cursor ps (es @ [?e]) u = Some (es @ ?e # out, s')" "held s' = {}"
        "map fst out = map (entry_name u) (filter (is_entry u) ps)" by auto
    have "map (entry_name u) (filter (is_entry u) ps) = map (entry_name s) (filter (is_entry s) ps)"
      by (rule map_filter_same) (use same in blast)
    then have "map fst (?e # out) = map (entry_name s) (filter (is_entry s) (p # ps))" using o(3) en True by simp
    then show ?thesis using step o(1,2) by (intro exI [of _ "?e # out"] exI [of _ s']) simp
  qed
qed

lemma is_entry_child:
  assumes wf: "dcache_wf s" and r: "dentries s r = Some q" "d_parent q = r \<Longrightarrow> d_unhashed q"
  shows "p \<in> set (d_subdirs q) \<and> is_entry s p \<longleftrightarrow> (\<exists>e. child_of s r (nm_of e) p \<and> dentries s p = Some e \<and> d_inode e \<noteq> 0)"
proof
  assume p: "p \<in> set (d_subdirs q) \<and> is_entry s p"
  then show "\<exists>e. child_of s r (nm_of e) p \<and> dentries s p = Some e \<and> d_inode e \<noteq> 0"
    using dentry_okD(6) [OF dcache_wfD(4) [OF wf r(1)], of p] by (auto simp: is_entry_def child_of_def simple_positive_def)
next
  assume "\<exists>e. child_of s r (nm_of e) p \<and> dentries s p = Some e \<and> d_inode e \<noteq> 0"
  then obtain e where e: "dentries s p = Some e" "d_parent e = r" "\<not> d_unhashed e" "d_inode e \<noteq> 0" by (auto simp: child_of_def)
  then have "p \<noteq> r" using r by auto
  then have "p \<in> set (d_subdirs q)" using dentry_okD(3) [OF dcache_wfD(4) [OF wf e(1)]] e(2) r(1) by auto
  then show "p \<in> set (d_subdirs q) \<and> is_entry s p" using e by (auto simp: is_entry_def simple_positive_def)
qed

lemma entry_names:
  assumes wf: "dcache_wf s" and r: "dentries s r = Some q" "d_parent q = r \<Longrightarrow> d_unhashed q" and c: "\<not> is_entry s cursor"
  shows "distinct (map (entry_name s) (filter (is_entry s) (removeAll cursor (d_subdirs q))))"
    "set (map (entry_name s) (filter (is_entry s) (removeAll cursor (d_subdirs q)))) =
      {nm. \<exists>p e. child_of s r nm p \<and> dentries s p = Some e \<and> d_inode e \<noteq> 0}"
proof -
  let ?ps = "filter (is_entry s) (removeAll cursor (d_subdirs q))"
  have mem: "p \<in> set ?ps \<longleftrightarrow> (\<exists>e. child_of s r (nm_of e) p \<and> dentries s p = Some e \<and> d_inode e \<noteq> 0)" for p
    using is_entry_child [OF wf r, of p] c by auto
  have "inj_on (entry_name s) (set ?ps)"
  proof (rule inj_onI)
    fix x y assume "x \<in> set ?ps" "y \<in> set ?ps" "entry_name s x = entry_name s y"
    then have "child_of s r (entry_name s x) x" "child_of s r (entry_name s x) y" unfolding mem by (auto simp: entry_name_def)
    then show "x = y" by (rule child_of_unique [OF wf])
  qed
  moreover have "distinct ?ps" using dentry_okD(4) [OF dcache_wfD(4) [OF wf r(1)]] by (simp add: distinct_removeAll)
  ultimately show "distinct (map (entry_name s) ?ps)" by (simp add: distinct_map)
  show "set (map (entry_name s) ?ps) = {nm. \<exists>p e. child_of s r nm p \<and> dentries s p = Some e \<and> d_inode e \<noteq> 0}" (is "?l = ?r")
  proof
    show "?l \<subseteq> ?r"
    proof
      fix nm assume "nm \<in> ?l"
      then obtain p where p: "p \<in> set ?ps" "nm = entry_name s p" by (auto simp del: set_filter)
      then obtain e where "child_of s r (nm_of e) p" "dentries s p = Some e" "d_inode e \<noteq> 0" unfolding mem by blast
      then show "nm \<in> ?r" using p(2) by (auto simp: entry_name_def)
    qed
    show "?r \<subseteq> ?l"
    proof
      fix nm assume "nm \<in> ?r"
      then obtain p e where p: "child_of s r nm p" "dentries s p = Some e" "d_inode e \<noteq> 0" by blast
      then have "nm = entry_name s p" by (auto simp: child_of_def entry_name_def)
      moreover have "p \<in> set ?ps" unfolding mem using p by (auto simp: child_of_def)
      ultimately show "nm \<in> ?l" by (simp del: set_filter)
    qed
  qed
qed

lemma readdir_entries_lists:
  assumes wf: "dcache_wf s" and h: "held s = {}" and f: "files s fl = Some f" "f_pos f = 2" "f_dentry f = r"
    and r: "dentries s r = Some q" and cr: "private_data f \<noteq> r"
  shows "\<exists>out s'. readdir_entries listing fl es s = Some (es @ out, s') \<and> held s' = {} \<and>
    map fst out = map (entry_name s) (filter (is_entry s) (removeAll (private_data f) (d_subdirs q)))"
proof -
  let ?c = "private_data f" and ?ps = "removeAll (private_data f) (d_subdirs q)"
  define u where "u = s\<lparr>held := {Dcache_lock}, dentries := (dentries s)(r \<mapsto> q\<lparr>d_subdirs := ?c # ?ps\<rparr>)\<rparr>"
  have ps: "p \<noteq> r \<and> (\<exists>d. dentries u p = Some d \<and> q_len (d_name d) = length (nm_of d) \<and>
      (simple_positive d \<longrightarrow> (\<exists>i. inodes u (d_inode d) = Some i)))" if p: "p \<in> set ?ps" for p
  proof -
    obtain d where d: "p \<noteq> r" "dentries s p = Some d" using dentry_okD(6) [OF dcache_wfD(4) [OF wf r], of p] p by auto
    then show ?thesis using dentry_okD(7,10) [OF dcache_wfD(4) [OF wf d(2)]] by (auto simp: u_def simple_positive_def)
  qed
  have same: "entry_name u x = entry_name s x" "is_entry u x = is_entry s x" if "x \<in> set ?ps" for x
    using ps [OF that] by (simp_all add: entry_name_def is_entry_def u_def)
  have "\<exists>out s'. readdir_loop listing fl r ?c ?ps es u = Some (es @ out, s') \<and> held s' = {} \<and>
      map fst out = map (entry_name u) (filter (is_entry u) ?ps)"
    by (rule readdir_loop_lists [OF ps, where f = f]) (use f in \<open>simp_all add: u_def\<close>)
  moreover have "map (entry_name u) (filter (is_entry u) ?ps) = map (entry_name s) (filter (is_entry s) ?ps)"
    by (rule map_filter_same) (use same in blast)
  moreover have "readdir_entries listing fl es s = readdir_loop listing fl r ?c ?ps es u"
    using f r h by (simp add: readdir_entries_def u_def after_def spin_lock_def upd_dentry_eq del: upd_dentry_Some spin_lock_upd)
  ultimately show ?thesis by simp
qed

lemma dcache_wf_files [simp]: "dcache_wf (files_update f s) = dcache_wf s"
  by (simp add: dcache_wf_def icache_wf_def inode_ok_def super_ok_def dentry_ok_def hash_ok_def alias_ok_def d_hash_def)

lemma dcache_readdir_lists:
  assumes wf: "dcache_wf s" and h: "held s = {}" and f: "files s fl = Some f" "f_pos f = 0"
    and r: "dentries s (f_dentry f) = Some q" "inodes s (d_inode q) = Some i" "d_parent q = f_dentry f \<Longrightarrow> d_unhashed q"
    and p: "dentries s (d_parent q) = Some pd" "inodes s (d_inode pd) = Some j"
    and c: "private_data f \<noteq> f_dentry f" "\<not> is_entry s (private_data f)"
  shows "\<exists>out s'. dcache_readdir listing fl [] s =
      Some ((0, (''.'', 0, i_ino i, DT_DIR) # (''..'', 1, i_ino j, DT_DIR) # out), s') \<and> held s' = {} \<and>
    distinct (map fst out) \<and> set (map fst out) = {nm. \<exists>c e. child_of s (f_dentry f) nm c \<and> dentries s c = Some e \<and> d_inode e \<noteq> 0}"
proof -
  let ?r = "f_dentry f"
  define u where "u = s\<lparr>files := (files s)(fl \<mapsto> f\<lparr>f_pos := 2\<rparr>)\<rparr>"
  have u: "dcache_wf u" "held u = {}" "files u fl = Some (f\<lparr>f_pos := 2\<rparr>)" "dentries u ?r = Some q"
    using wf h r by (simp_all add: u_def)
  let ?es = "[(''.'', 0, i_ino i, DT_DIR), (''..'', 1, i_ino j, DT_DIR)]"
  have same: "entry_name u = entry_name s" "is_entry u = is_entry s" by (simp_all add: fun_eq_iff entry_name_def is_entry_def u_def)
  obtain out s' where o: "readdir_entries listing fl ?es u = Some (?es @ out, s')" "held s' = {}"
      "map fst out = map (entry_name s) (filter (is_entry s) (removeAll (private_data f) (d_subdirs q)))"
    using readdir_entries_lists [OF u(1-3) _ _ u(4), where es = ?es] c(1) same by auto
  define v where "v = s\<lparr>files := (files s)(fl \<mapsto> f\<lparr>f_pos := 1\<rparr>)\<rparr>"
  have hi: "held_update (\<lambda>x. x - {D_lock ?r}) v = v" by (rule held_idem) (simp add: v_def h)
  have "parent_ino ?r v = Some (i_ino j, v)"
    using h r(1) p hi by (simp add: parent_ino_def v_def lock_simps)
  then have "readdir_dotdot listing fl [(''.'', 0, i_ino i, DT_DIR)] v = readdir_entries listing fl ?es u"
    by (simp add: readdir_dotdot_def listing_def u_def v_def upd_file_def)
  then have "dcache_readdir listing fl [] s = Some ((0, ?es @ out), s')"
    using f r o(1) by (simp add: dcache_readdir_def listing_def v_def upd_file_def)
  moreover have "distinct (map fst out)" unfolding o(3) by (rule entry_names(1) [OF wf r(1,3) c(2)])
  moreover have "set (map fst out) = {nm. \<exists>c e. child_of s ?r nm c \<and> dentries s c = Some e \<and> d_inode e \<noteq> 0}"
    unfolding o(3) by (rule entry_names(2) [OF wf r(1,3) c(2)])
  ultimately show ?thesis using o(2) by (intro exI [of _ out] exI [of _ s']) simp
qed

end
