(* ===== verification/Namei.thy ===== *)
theory Namei
  imports Libfs
begin

text \<open>
  Permissions and the lookup of one name, from \<^verbatim>\<open>fs/namei.c\<close>, with the search for a
  supplementary group of \<^verbatim>\<open>kernel/sys.c\<close>. None of the tables of inode operations has a
  \<^verbatim>\<open>permission\<close> method, and none of dentry operations a \<^verbatim>\<open>d_hash\<close> or
  \<^verbatim>\<open>d_revalidate\<close>. \<open>lookup_hash\<close> takes the method \<^verbatim>\<open>lookup\<close> of the directory as an
  argument.
\<close>

definition MAY_EXEC :: "32 word" where [simp]: "MAY_EXEC = 1"
definition MAY_WRITE :: "32 word" where [simp]: "MAY_WRITE = 2"
definition MAY_READ :: "32 word" where [simp]: "MAY_READ = 4"
definition MAY_APPEND :: "32 word" where [simp]: "MAY_APPEND = 8"

definition CAP_DAC_OVERRIDE :: nat where [simp]: "CAP_DAC_OVERRIDE = 1"
definition CAP_DAC_READ_SEARCH :: nat where [simp]: "CAP_DAC_READ_SEARCH = 2"
definition CAP_FOWNER :: nat where [simp]: "CAP_FOWNER = 3"

definition capable :: "nat \<Rightarrow> 'a kcore_scheme \<Rightarrow> bool" where
  "capable cap s \<longleftrightarrow> cap \<in> cur_caps s"

section \<open>Groups\<close>

text \<open>The difference of two group numbers is unsigned; \<^verbatim>\<open>cmp\<close> reads it as an int.\<close>

function groups_bsearch :: "(32 word) list \<Rightarrow> 32 word \<Rightarrow> nat \<Rightarrow> nat \<Rightarrow> bool" where
  "groups_bsearch gs grp left right =
     (if left < right then
        let mid = (left + right) div 2;
            cmp = sint (grp - gs ! mid)
        in if cmp > 0 then groups_bsearch gs grp (mid + 1) right
           else if cmp < 0 then groups_bsearch gs grp left mid
           else True
      else False)"
  by auto
termination
  by (relation "measure (\<lambda>(gs, grp, left, right). right - left)") auto

declare groups_bsearch.simps [simp del]

definition groups_search :: "(32 word) list \<Rightarrow> 32 word \<Rightarrow> bool" where
  "groups_search gs grp = groups_bsearch gs grp 0 (length gs)"

definition in_group_p :: "32 word \<Rightarrow> 'a kcore_scheme \<Rightarrow> bool" where
  "in_group_p grp s = (if grp \<noteq> cur_fsgid s then groups_search (cur_groups s) grp else True)"

section \<open>Permissions\<close>

definition dac_mode :: "inode \<Rightarrow> 'a icache_scheme \<Rightarrow> 16 word" where
  "dac_mode i s =
     (if cur_fsuid s = i_uid i then drop_bit 6 (i_mode i)
      else if in_group_p (i_gid i) s then drop_bit 3 (i_mode i)
      else i_mode i)"

definition check_capabilities :: "inode \<Rightarrow> 32 word \<Rightarrow> 'a icache_scheme \<Rightarrow> int" where
  "check_capabilities i msk s =
     (if (msk AND MAY_EXEC = 0 \<or> i_mode i AND S_IXUGO \<noteq> 0 \<or> S_ISDIR (i_mode i)) \<and>
         capable CAP_DAC_OVERRIDE s then 0
      else if (msk = MAY_READ \<or> S_ISDIR (i_mode i) \<and> msk AND MAY_WRITE = 0) \<and>
              capable CAP_DAC_READ_SEARCH s then 0
      else - EACCES)"

definition generic_permission ::
  "ptr \<Rightarrow> 32 word \<Rightarrow> (ptr \<Rightarrow> 32 word \<Rightarrow> int) option \<Rightarrow> 'a icache_scheme \<Rightarrow> int option" where
  "generic_permission inode msk check_acl s = do {
     i \<leftarrow> inodes s inode;
     b \<leftarrow> supers s (i_sb i);
     let dac = (if ucast (dac_mode i s) AND msk AND (MAY_READ OR MAY_WRITE OR MAY_EXEC) = msk
                then 0 else check_capabilities i msk s) in
     if cur_fsuid s = i_uid i then Some dac
     else case check_acl of
       None \<Rightarrow> Some dac
     | Some acl \<Rightarrow>
         if s_flags b AND MS_POSIXACL \<noteq> 0 \<and> i_mode i AND S_IRWXG \<noteq> 0 then
           let error = acl inode msk in
           if error = - EACCES then Some (check_capabilities i msk s)
           else if error \<noteq> - EAGAIN then Some error
           else Some dac
         else Some dac }"

definition permission :: "ptr \<Rightarrow> 32 word \<Rightarrow> 'a icache_scheme \<Rightarrow> int option" where
  "permission inode msk s = do {
     i \<leftarrow> inodes s inode;
     b \<leftarrow> supers s (i_sb i);
     if msk AND MAY_WRITE \<noteq> 0 \<and> s_flags b AND MS_RDONLY \<noteq> 0 \<and>
        (S_ISREG (i_mode i) \<or> S_ISDIR (i_mode i) \<or> S_ISLNK (i_mode i)) then Some (- EROFS)
     else if msk AND MAY_WRITE \<noteq> 0 \<and> i_flags i AND S_IMMUTABLE \<noteq> 0 then Some (- EACCES)
     else generic_permission inode (msk AND NOT MAY_APPEND) None s }"

definition exec_permission_lite :: "ptr \<Rightarrow> 'a icache_scheme \<Rightarrow> int option" where
  "exec_permission_lite inode s = do {
     i \<leftarrow> inodes s inode;
     if ucast (dac_mode i s) AND MAY_EXEC \<noteq> 0 then Some 0
     else if i_mode i AND S_IXUGO \<noteq> 0 \<and> capable CAP_DAC_OVERRIDE s then Some 0
     else if S_ISDIR (i_mode i) \<and> capable CAP_DAC_OVERRIDE s then Some 0
     else if S_ISDIR (i_mode i) \<and> capable CAP_DAC_READ_SEARCH s then Some 0
     else Some (- EACCES) }"

definition ETXTBSY :: int where [simp]: "ETXTBSY = 26"

definition get_write_access :: "ptr \<Rightarrow> 'a icache_scheme \<Rightarrow> (int \<times> 'a icache_scheme) option" where
  "get_write_access inode s = do {
     s \<leftarrow> spin_lock (I_lock inode) s;
     i \<leftarrow> inodes s inode;
     if i_writecount i < 0 then do {
       s \<leftarrow> spin_unlock (I_lock inode) s;
       Some (- ETXTBSY, s) }
     else do {
       s \<leftarrow> upd_inode inode (\<lambda>i. i\<lparr>i_writecount := i_writecount i + 1\<rparr>) s;
       s \<leftarrow> spin_unlock (I_lock inode) s;
       Some (0, s) } }"

definition deny_write_access :: "ptr \<Rightarrow> 'a vfs_scheme \<Rightarrow> (int \<times> 'a vfs_scheme) option" where
  "deny_write_access fl s = do {
     f \<leftarrow> files s fl;
     d \<leftarrow> dentries s (f_dentry f);
     s \<leftarrow> spin_lock (I_lock (d_inode d)) s;
     i \<leftarrow> inodes s (d_inode d);
     if i_writecount i > 0 then do {
       s \<leftarrow> spin_unlock (I_lock (d_inode d)) s;
       Some (- ETXTBSY, s) }
     else do {
       s \<leftarrow> upd_inode (d_inode d) (\<lambda>i. i\<lparr>i_writecount := i_writecount i - 1\<rparr>) s;
       s \<leftarrow> spin_unlock (I_lock (d_inode d)) s;
       Some (0, s) } }"

section \<open>Looking a name up\<close>

definition cached_lookup :: "ptr \<Rightarrow> qstr \<Rightarrow> 'a vfs_scheme \<Rightarrow> (ptr \<times> 'a vfs_scheme) option" where
  "cached_lookup parent nm s = do {
     (dentry, s) \<leftarrow> d_lookup_rcu parent nm s;
     if dentry = NULL then d_lookup parent nm s else Some (dentry, s) }"

type_synonym 'a lookup_method =
  "inode_operations \<Rightarrow> ptr \<Rightarrow> ptr \<Rightarrow> 'a vfs_scheme \<Rightarrow> (ptr \<times> 'a vfs_scheme) option"

definition real_lookup ::
  "'a lookup_method \<Rightarrow> ptr \<Rightarrow> qstr \<Rightarrow> 'a vfs_scheme \<Rightarrow> (ptr \<times> 'a vfs_scheme) option" where
  "real_lookup lookup parent nm s = do {
     p \<leftarrow> dentries s parent;
     let dir = d_inode p in do {
     s \<leftarrow> down_sem dir s;
     (result, s) \<leftarrow> d_lookup parent nm s;
     if result = NULL then do {
       (dentry, s) \<leftarrow> d_alloc parent nm s;
       (result, s) \<leftarrow>
         (if dentry \<noteq> NULL then do {
            i \<leftarrow> inodes s dir;
            (result, s) \<leftarrow> lookup (i_op i) dir dentry s;
            if result \<noteq> NULL then do { s \<leftarrow> dput dentry s; Some (result, s) }
            else Some (dentry, s) }
          else Some (ERR_PTR (- ENOMEM), s));
       s \<leftarrow> up_sem dir s;
       Some (result, s) }
     else do {
       s \<leftarrow> up_sem dir s;
       Some (result, s) } } }"

definition lookup_hash ::
  "'a lookup_method \<Rightarrow> qstr \<Rightarrow> ptr \<Rightarrow> 'a vfs_scheme \<Rightarrow> (ptr \<times> 'a vfs_scheme) option" where
  "lookup_hash lookup nm base s = do {
     b \<leftarrow> dentries s base;
     let inode = d_inode b in do {
     err \<leftarrow> permission inode MAY_EXEC s;
     if err \<noteq> 0 then Some (ERR_PTR err, s)
     else do {
       (dentry, s) \<leftarrow> cached_lookup base nm s;
       if dentry \<noteq> NULL then Some (dentry, s)
       else do {
         (new, s) \<leftarrow> d_alloc base nm s;
         if new = NULL then Some (ERR_PTR (- ENOMEM), s)
         else do {
           i \<leftarrow> inodes s inode;
           (dentry, s) \<leftarrow> lookup (i_op i) inode new s;
           if dentry = NULL then Some (new, s)
           else do {
             s \<leftarrow> dput new s;
             Some (dentry, s) } } } } } }"

text \<open>The hashing loop of \<^verbatim>\<open>lookup_one_len\<close>; \<open>None\<close> is its jump to \<^verbatim>\<open>access\<close>.\<close>

fun hash_component :: "string \<Rightarrow> 64 word \<Rightarrow> 64 word option" where
  "hash_component [] h = Some h"
| "hash_component (c # cs) h =
     (if c = CHR ''/'' \<or> c = CHR 0x00 then None
      else hash_component cs (partial_name_hash (char_ulong c) h))"

definition lookup_one_len ::
  "'a lookup_method \<Rightarrow> string \<Rightarrow> ptr \<Rightarrow> nat \<Rightarrow> 'a vfs_scheme \<Rightarrow> (ptr \<times> 'a vfs_scheme) option" where
  "lookup_one_len lookup nm base len s =
     (if len = 0 then Some (ERR_PTR (- EACCES), s)
      else case hash_component (take len nm) init_name_hash of
        None \<Rightarrow> Some (ERR_PTR (- EACCES), s)
      | Some h \<Rightarrow>
          lookup_hash lookup \<lparr>q_hash = ucast (end_name_hash h), q_len = len, q_name = nm\<rparr> base s)"

section \<open>Checks before a change\<close>

definition check_sticky :: "inode \<Rightarrow> inode \<Rightarrow> 'a icache_scheme \<Rightarrow> bool" where
  "check_sticky dir i s =
     (if i_mode dir AND S_ISVTX = 0 then False
      else if i_uid i = cur_fsuid s then False
      else if i_uid dir = cur_fsuid s then False
      else \<not> capable CAP_FOWNER s)"

definition may_delete :: "ptr \<Rightarrow> ptr \<Rightarrow> bool \<Rightarrow> 'a dcache_scheme \<Rightarrow> int option" where
  "may_delete dir victim isdir s = do {
     v \<leftarrow> dentries s victim;
     if d_inode v = NULL then Some (- ENOENT)
     else do {
       p \<leftarrow> dentries s (d_parent v);
       if d_inode p \<noteq> dir then None
       else do {
         error \<leftarrow> permission dir (MAY_WRITE OR MAY_EXEC) s;
         di \<leftarrow> inodes s dir;
         vi \<leftarrow> inodes s (d_inode v);
         if error \<noteq> 0 then Some error
         else if i_flags di AND S_APPEND \<noteq> 0 then Some (- EPERM)
         else if check_sticky di vi s \<or> i_flags vi AND S_APPEND \<noteq> 0 \<or>
                 i_flags vi AND S_IMMUTABLE \<noteq> 0 then Some (- EPERM)
         else if isdir \<and> \<not> S_ISDIR (i_mode vi) then Some (- ENOTDIR)
         else if isdir \<and> d_parent v = victim then Some (- EBUSY)
         else if \<not> isdir \<and> S_ISDIR (i_mode vi) then Some (- EISDIR)
         else if i_flags di AND S_DEAD \<noteq> 0 then Some (- ENOENT)
         else if d_flags v AND DCACHE_NFSFS_RENAMED \<noteq> 0 then Some (- EBUSY)
         else Some 0 } } }"

definition may_create :: "ptr \<Rightarrow> ptr \<Rightarrow> 'a dcache_scheme \<Rightarrow> int option" where
  "may_create dir child s = do {
     c \<leftarrow> dentries s child;
     if d_inode c \<noteq> NULL then Some (- EEXIST)
     else do {
       i \<leftarrow> inodes s dir;
       if i_flags i AND S_DEAD \<noteq> 0 then Some (- ENOENT)
       else permission dir (MAY_WRITE OR MAY_EXEC) s } }"

text \<open>
  The dentry that a lookup in a directory of \<^verbatim>\<open>fs/libfs.c\<close> leaves for a name that is not there: negative, hashed
  and with the methods of that library; and the state with it.
\<close>

definition neg_child :: "ptr \<Rightarrow> ptr \<Rightarrow> qstr \<Rightarrow> 'a dcache_scheme \<Rightarrow> dentry" where
  "neg_child r sb nm s = (fresh_dentry r sb nm s)\<lparr>d_op := Simple_dentry_operations, d_flags := 0\<rparr>"

definition with_neg :: "ptr \<Rightarrow> dentry \<Rightarrow> qstr \<Rightarrow> 'a dcache_scheme \<Rightarrow> 'a dcache_scheme" where
  "with_neg r q nm s = s\<lparr>next_addr := next_addr s + name_blocks nm,
     dentries := (dentries s)(r \<mapsto> q\<lparr>d_count := d_count q + 1, d_subdirs := next_addr s # d_subdirs q\<rparr>,
       next_addr s \<mapsto> neg_child r (d_sb q) nm s),
     nr_dentry := nr_dentry s + 1,
     dentry_hashtable := (dentry_hashtable s)(d_hash r (q_hash nm) s := next_addr s # dentry_hashtable s (d_hash r (q_hash nm) s))\<rparr>"

text \<open>The name as \<^verbatim>\<open>lookup_one_len\<close> hashes it.\<close>

definition mk_qstr :: "string \<Rightarrow> qstr" where
  "mk_qstr nm = \<lparr>q_hash = full_name_hash nm (length nm), q_len = length nm, q_name = nm\<rparr>"

definition plain_name :: "string \<Rightarrow> bool" where
  "plain_name nm \<longleftrightarrow> nm \<noteq> [] \<and> CHR ''/'' \<notin> set nm \<and> CHR 0x00 \<notin> set nm"

section \<open>Looking up a name that is not there\<close>

lemma simple_lookup_negative:
  assumes "held s = {}" and "dentries s p = Some d" and "d_inode d = 0" and "inodes s 0 = None" and "q_len (d_name d) \<le> 255"
  shows "simple_lookup dir p s = Some (0, s\<lparr>dentries := (dentries s)(p \<mapsto>
      d\<lparr>d_op := Simple_dentry_operations, d_flags := d_flags d AND - 17\<rparr>),
    dentry_hashtable := (dentry_hashtable s)(bucket s d := p # dentry_hashtable s (bucket s d))\<rparr>)"
proof -
  let ?d = "d\<lparr>d_op := Simple_dentry_operations\<rparr>"
  let ?s = "s\<lparr>dentries := (dentries s)(p \<mapsto> ?d)\<rparr>"
  have "d_instantiate p 0 ?s = Some ?s"
    by (rule d_instantiate_negative [where d = ?d]) (use assms in simp_all)
  moreover have "d_rehash p ?s = Some (?s\<lparr>dentries := (dentries ?s)(p \<mapsto> ?d\<lparr>d_flags := d_flags ?d AND - 17\<rparr>),
    dentry_hashtable := (dentry_hashtable ?s)(bucket ?s ?d := p # dentry_hashtable ?s (bucket ?s ?d))\<rparr>)"
    by (rule d_rehash_ok [where d = ?d]) (use assms in simp_all)
  ultimately show ?thesis using assms by (simp add: simple_lookup_def d_add_def upd_dentry_eq del: upd_dentry_Some)
qed

lemma with_neg_wf:
  assumes wf: "dcache_wf s" and h: "held s = {}" and q: "dentries s r = Some q" and nm: "qstr_ok nm"
    and none: "\<And>c. \<not> child_of s r (q_name nm) c"
  shows "dcache_wf (with_neg r q nm s)"
proof -
  let ?p = "next_addr s" and ?f = "fresh_dentry r (d_sb q) nm s"
  define a where "a = s\<lparr>next_addr := next_addr s + name_blocks nm,
     dentries := (dentries s)(r \<mapsto> q\<lparr>d_count := d_count q + 1, d_subdirs := next_addr s # d_subdirs q\<rparr>, ?p \<mapsto> ?f),
     nr_dentry := nr_dentry s + 1\<rparr>"
  define f where "f = ?f\<lparr>d_op := Simple_dentry_operations\<rparr>"
  define u where "u = a\<lparr>dentries := (dentries a)(?p \<mapsto> f)\<rparr>"
  have wa: "dcache_wf a" unfolding a_def by (rule d_alloc_wf [OF wf q]) (use nm in \<open>simp add: qstr_ok_def\<close>)
  have da: "dentries a ?p = Some ?f" by (simp add: a_def)
  have f: "d_parent f = r" "d_unhashed f" "d_name f = d_name ?f" "d_inode f = 0" "d_subdirs f = []" "d_count f = 1"
    by (simp_all add: f_def d_unhashed_def) (simp add: fresh_dentry_def)
  have wu: "dcache_wf u" unfolding u_def by (rule dcache_wf_upd_dentry [OF wa da]) (use f in \<open>simp_all add: ext_refs_def\<close>)
  have nmf: "nm_of f = q_name nm" "q_hash (d_name f) = q_hash nm" using f nm by (simp_all add: qstr_ok_def)
  have child: "child_of u k str c = child_of s k str c" for k str c
  proof -
    have "child_of u k str c = child_of a k str c"
      using da f(2) by (auto simp: child_of_def u_def)
    then show ?thesis unfolding a_def child_of_alloc [OF wf q] .
  qed
  have hu: "held u = {}" "dentries u ?p = Some f" using h by (simp_all add: u_def a_def)
  obtain t where t: "d_rehash ?p u = Some t" "dcache_wf t"
    using d_rehash_wf [OF wu hu f(2)] nm none child nmf f(1) by (auto simp: qstr_ok_def)
  define b where "b = d_hash r (q_hash nm) s"
  have b: "bucket u f = b" using f(1) nmf(2) by (simp add: b_def u_def a_def)
  have fl: "f\<lparr>d_flags := d_flags f AND - 17\<rparr> = neg_child r (d_sb q) nm s"
    by (simp add: f_def neg_child_def fresh_dentry_def)
  have "t = u\<lparr>dentries := (dentries u)(?p \<mapsto> neg_child r (d_sb q) nm s),
      dentry_hashtable := (dentry_hashtable u)(b := ?p # dentry_hashtable u b)\<rparr>"
    using t(1) d_rehash_ok [OF hu] unfolding b fl by simp
  then have "t = with_neg r q nm s"
    unfolding with_neg_def b_def [symmetric] by (simp add: u_def a_def)
  with t show ?thesis by simp
qed

lemma lookup_hash_miss:
  assumes wf: "dcache_wf s" and h: "held s = {}" and q: "dentries s r = Some q" "0 < d_count q" and nm: "qstr_ok nm" "q_len nm \<le> 255"
    and none: "\<And>c. \<not> child_of s r (q_name nm) c"
    and i: "inodes s (d_inode q) = Some i" "i_op i = Simple_dir_inode_operations"
    and perm: "permission (d_inode q) MAY_EXEC s = Some 0" and mem: "d_alloc_mem nm s"
  shows "lookup_hash i_op_lookup nm r s = Some (next_addr s, with_neg r q nm s)"
proof -
  let ?p = "next_addr s" and ?f = "fresh_dentry r (d_sb q) nm s"
  define a where "a = s\<lparr>next_addr := next_addr s + name_blocks nm,
     dentries := (dentries s)(r \<mapsto> q\<lparr>d_count := d_count q + 1, d_subdirs := next_addr s # d_subdirs q\<rparr>, ?p \<mapsto> ?f),
     nr_dentry := nr_dentry s + 1\<rparr>"
  have pos: "0 < ?p" "0 < r" "r < ?p" using icache_wfD(1) [OF dcache_wfD(1) [OF wf]] dentry_okD(1,2) [OF dcache_wfD(4) [OF wf q(1)]] by simp_all
  have al: "d_alloc r nm s = Some (?p, a)"
    unfolding a_def by (rule d_alloc_ok) (use h mem q pos in simp_all)
  have c: "cached_lookup r nm s = Some (0, s)"
    using d_lookup_miss [OF wf h q(1) nm(1) none] by (simp add: cached_lookup_def)
  have i0: "inodes s 0 = None" by (rule no_inode_0 [OF dcache_wfD(1) [OF wf]])
  have "simple_lookup (d_inode q) ?p a = Some (0, with_neg r q nm s)"
    using simple_lookup_negative [of a ?p ?f "d_inode q"] h nm(2) i0
    by (simp add: a_def with_neg_def neg_child_def) (simp add: fresh_dentry_def)
  moreover have "inodes a (d_inode q) = Some i" using i by (simp add: a_def)
  ultimately show ?thesis using q c perm al i(2) pos by (simp add: lookup_hash_def i_op_lookup_def)
qed

lemma mk_qstr_simps [simp]: "q_name (mk_qstr nm) = nm" "q_len (mk_qstr nm) = length nm" "qstr_ok (mk_qstr nm)"
  by (simp_all add: mk_qstr_def qstr_ok_def)

lemma hash_component_fold:
  "hash_component nm h = (if CHR ''/'' \<in> set nm \<or> CHR 0x00 \<in> set nm then None
     else Some (fold (\<lambda>c h. partial_name_hash (char_ulong c) h) nm h))"
  by (induction nm arbitrary: h) auto

lemma lookup_one_len_plain:
  "plain_name nm \<Longrightarrow> lookup_one_len lk nm r (length nm) s = lookup_hash lk (mk_qstr nm) r s"
  by (simp add: lookup_one_len_def plain_name_def hash_component_fold mk_qstr_def full_name_hash_def)

lemma lookup_one_len_refused:
  "\<not> plain_name nm \<Longrightarrow> lookup_one_len lk nm r (length nm) s = Some (ERR_PTR (- EACCES), s)"
  by (auto simp: lookup_one_len_def plain_name_def hash_component_fold)

lemma lookup_hash_hit:
  assumes wf: "dcache_wf s" and h: "held s = {}" and q: "dentries s r = Some q" and nm: "qstr_ok nm"
    and c: "child_of s r (q_name nm) c" "dentries s c = Some d" and perm: "permission (d_inode q) MAY_EXEC s = Some 0"
  shows "lookup_hash lk nm r s = Some (c, s\<lparr>dentries := (dentries s)(c \<mapsto> d\<lparr>d_count := d_count d + 1\<rparr>)\<rparr>)"
proof -
  have "c \<noteq> 0" using dentry_parent_pos(2) [OF wf c(2)] by simp
  then show ?thesis using d_lookup_hit [OF wf h nm c] q perm by (simp add: lookup_hash_def cached_lookup_def)
qed

lemma lookup_hash_denied:
  assumes "dentries s r = Some q" and "permission (d_inode q) MAY_EXEC s = Some e" and "e \<noteq> 0"
  shows "lookup_hash lk nm r s = Some (ERR_PTR e, s)"
  using assms by (simp add: lookup_hash_def)

section \<open>Permissions\<close>

lemma permission_override:
  assumes "inodes s p = Some i" and "supers s (i_sb i) = Some b" and "S_ISDIR (i_mode i)" and "CAP_DAC_OVERRIDE \<in> cur_caps s"
  shows "permission p MAY_EXEC s = Some 0"
  using assms by (simp add: permission_def generic_permission_def check_capabilities_def capable_def)

lemma exec_lite_generic:
  assumes "inodes s p = Some i" and "supers s (i_sb i) = Some b"
  shows "exec_permission_lite p s = permission p MAY_EXEC s"
proof -
  have "(w AND 1 AND (4 OR 2 OR 1) = 1) = (w AND 1 \<noteq> 0)" for w :: "32 word"
  proof -
    have "w AND 1 = 0 \<or> w AND 1 = 1" by (simp add: and_one_eq mod2_eq_if) 
    then show ?thesis by (auto simp: and.assoc)
  qed
  then show ?thesis
    using assms by (auto simp: exec_permission_lite_def permission_def generic_permission_def check_capabilities_def capable_def)
qed

section \<open>The search for a group\<close>

lemma sint_diff_small:
  fixes a b :: "32 word"
  assumes "uint a < 2 ^ 31" and "uint b < 2 ^ 31"
  shows "sint (a - b) = uint a - uint b"
proof -
  have "a - b = word_of_int (uint a - uint b)" by simp
  then have "sint (a - b) = signed_take_bit 31 (uint a - uint b)" by (simp only: sint_sbintrunc') simp
  also have "\<dots> = uint a - uint b"
    by (rule signed_take_bit_int_eq_self) (use assms uint_ge_0 [of a] uint_ge_0 [of b] in linarith)+
  finally show ?thesis .
qed

lemma groups_bsearch_correct:
  assumes s: "sorted (map uint gs)" and b: "\<forall>g\<in>set gs. uint g < 2 ^ 31" and g: "uint grp < 2 ^ 31" and "right \<le> length gs"
  shows "groups_bsearch gs grp left right \<longleftrightarrow> (\<exists>k. left \<le> k \<and> k < right \<and> gs ! k = grp)"
  using assms(4)
proof (induction "right - left" arbitrary: left right rule: less_induct)
  case less
  show ?case
  proof (cases "left < right")
    case False
    then show ?thesis by (subst groups_bsearch.simps) auto
  next
    case True
    define mid where "mid = (left + right) div 2"
    have m: "left \<le> mid" "mid < right" "mid < length gs" using True less.prems by (auto simp: mid_def)
    have c: "sint (grp - gs ! mid) = uint grp - uint (gs ! mid)" by (rule sint_diff_small) (use g b m in auto)
    have mono: "uint (gs ! i) \<le> uint (gs ! j)" if "i \<le> j" "j < length gs" for i j
      using sorted_nth_mono [OF s that(1)] that by simp
    consider "uint (gs ! mid) < uint grp" | "uint grp < uint (gs ! mid)" | "gs ! mid = grp"
      by (cases "uint grp" "uint (gs ! mid)" rule: linorder_cases) (simp_all add: word_uint_eqI)
    then show ?thesis
    proof cases
      case 1
      then have "groups_bsearch gs grp left right = groups_bsearch gs grp (mid + 1) right"
        using True c by (subst groups_bsearch.simps) (simp add: mid_def Let_def)
      also have "\<dots> \<longleftrightarrow> (\<exists>k. mid + 1 \<le> k \<and> k < right \<and> gs ! k = grp)" by (rule less.hyps) (use m less.prems in auto)
      also have "\<dots> \<longleftrightarrow> (\<exists>k. left \<le> k \<and> k < right \<and> gs ! k = grp)"
      proof -
        have "gs ! k \<noteq> grp" if "k \<le> mid" for k using mono [OF that m(3)] 1 by auto
        then show ?thesis using m(1) by (metis Suc_eq_plus1 le_trans not_less_eq_eq le_SucI)
      qed
      finally show ?thesis .
    next
      case 2
      then have "groups_bsearch gs grp left right = groups_bsearch gs grp left mid"
        using True c by (subst groups_bsearch.simps) (simp add: mid_def Let_def)
      also have "\<dots> \<longleftrightarrow> (\<exists>k. left \<le> k \<and> k < mid \<and> gs ! k = grp)" by (rule less.hyps) (use m less.prems in auto)
      also have "\<dots> \<longleftrightarrow> (\<exists>k. left \<le> k \<and> k < right \<and> gs ! k = grp)"
      proof -
        have "gs ! k \<noteq> grp" if "mid \<le> k" "k < right" for k using mono [OF that(1)] that(2) less.prems 2 by fastforce
        then show ?thesis using m(2) by (metis less_trans not_less)
      qed
      finally show ?thesis .
    next
      case 3
      then have "groups_bsearch gs grp left right" using True c by (subst groups_bsearch.simps) (simp add: mid_def Let_def)
      then show ?thesis using 3 m by auto
    qed
  qed
qed

lemma groups_search_correct:
  assumes "sorted (map uint gs)" and "\<forall>g\<in>set gs. uint g < 2 ^ 31" and "uint grp < 2 ^ 31"
  shows "groups_search gs grp \<longleftrightarrow> grp \<in> set gs"
  using groups_bsearch_correct [OF assms, of "length gs" 0] by (auto simp: groups_search_def in_set_conv_nth)

lemma neg_child_simps [simp]:
  "d_inode (neg_child r b nm s) = 0" "d_count (neg_child r b nm s) = 1" "d_parent (neg_child r b nm s) = r"
  "d_subdirs (neg_child r b nm s) = []" "\<not> d_unhashed (neg_child r b nm s)" "d_sb (neg_child r b nm s) = b"
  "d_name (neg_child r b nm s) = \<lparr>q_hash = q_hash nm, q_len = q_len nm, q_name = take (q_len nm) (q_name nm)\<rparr>"
  by (simp_all add: neg_child_def) (simp_all add: d_unhashed_def)

lemma with_neg_simps [simp]:
  "held (with_neg r q nm s) = held s" "next_addr (with_neg r q nm s) = next_addr s + name_blocks nm"
  "inodes (with_neg r q nm s) = inodes s" "supers (with_neg r q nm s) = supers s" "mem_ok (with_neg r q nm s) = mem_ok s"
  "dentries (with_neg r q nm s) = (dentries s)(r \<mapsto> q\<lparr>d_count := d_count q + 1, d_subdirs := next_addr s # d_subdirs q\<rparr>,
       next_addr s \<mapsto> neg_child r (d_sb q) nm s)"
  by (simp_all add: with_neg_def)

lemma with_neg_child:
  assumes wf: "dcache_wf s" and q: "dentries s r = Some q" and nm: "qstr_ok nm"
  shows "child_of (with_neg r q nm s) k str x \<longleftrightarrow> child_of s k str x \<or> k = r \<and> str = q_name nm \<and> x = next_addr s"
proof -
  have u: "d_unhashed (q\<lparr>d_count := d_count q + 1, d_subdirs := next_addr s # d_subdirs q\<rparr>) = d_unhashed q" by (simp add: d_unhashed_def)
  show ?thesis
  proof (cases "x = next_addr s")
    case True
    then show ?thesis using dcache_wf_fresh [OF wf] q nm by (auto simp: child_of_def qstr_ok_def)
  next
    case False
    then show ?thesis using q u by (cases "x = r") (auto simp: child_of_def)
  qed
qed

section \<open>Writers and executers\<close>

lemma write_access_excludes:
  assumes h: "held s = {}" and f: "files s fl = Some f" "dentries s (f_dentry f) = Some d" "inodes s (d_inode d) = Some i"
  shows "if 0 \<le> i_writecount i
     then \<exists>s1. get_write_access (d_inode d) s = Some (0, s1) \<and> inodes s1 = (inodes s)(d_inode d \<mapsto> i\<lparr>i_writecount := i_writecount i + 1\<rparr>) \<and>
       deny_write_access fl s1 = Some (- ETXTBSY, s1)
     else get_write_access (d_inode d) s = Some (- ETXTBSY, s)"
    "if i_writecount i \<le> 0
     then \<exists>s1. deny_write_access fl s = Some (0, s1) \<and> inodes s1 = (inodes s)(d_inode d \<mapsto> i\<lparr>i_writecount := i_writecount i - 1\<rparr>) \<and>
       get_write_access (d_inode d) s1 = Some (- ETXTBSY, s1)
     else deny_write_access fl s = Some (- ETXTBSY, s)"
proof -
  let ?n = "d_inode d"
  have hs: "held_update (\<lambda>x. x - {I_lock ?n}) u = u" if "held u = {}" for u :: "'a vfs_scheme" by (rule held_idem) (simp add: that)
  define u where "u = s\<lparr>inodes := (inodes s)(?n \<mapsto> i\<lparr>i_writecount := i_writecount i + 1\<rparr>)\<rparr>"
  define v where "v = s\<lparr>inodes := (inodes s)(?n \<mapsto> i\<lparr>i_writecount := i_writecount i - 1\<rparr>)\<rparr>"
  have "get_write_access ?n s = (if i_writecount i < 0 then Some (- ETXTBSY, s) else Some (0, u))"
    using h f(3) hs [OF h] by (simp add: get_write_access_def lock_simps u_def)
  moreover have "deny_write_access fl s = (if 0 < i_writecount i then Some (- ETXTBSY, s) else Some (0, v))"
    using h f hs [OF h] by (simp add: deny_write_access_def lock_simps v_def)
  moreover have "0 \<le> i_writecount i \<Longrightarrow> deny_write_access fl u = Some (- ETXTBSY, u)"
    using h f hs [of u] by (simp add: deny_write_access_def lock_simps u_def)
  moreover have "i_writecount i \<le> 0 \<Longrightarrow> get_write_access ?n v = Some (- ETXTBSY, v)"
    using h f hs [of v] by (simp add: get_write_access_def lock_simps v_def)
  ultimately show "if 0 \<le> i_writecount i
     then \<exists>s1. get_write_access ?n s = Some (0, s1) \<and> inodes s1 = (inodes s)(?n \<mapsto> i\<lparr>i_writecount := i_writecount i + 1\<rparr>) \<and>
       deny_write_access fl s1 = Some (- ETXTBSY, s1)
     else get_write_access ?n s = Some (- ETXTBSY, s)"
    "if i_writecount i \<le> 0
     then \<exists>s1. deny_write_access fl s = Some (0, s1) \<and> inodes s1 = (inodes s)(?n \<mapsto> i\<lparr>i_writecount := i_writecount i - 1\<rparr>) \<and>
       get_write_access ?n s1 = Some (- ETXTBSY, s1)
     else deny_write_access fl s = Some (- ETXTBSY, s)"
    by (simp_all add: u_def v_def)
qed

end
