(* ===== verification/Filesystems.thy ===== *)
theory Filesystems
  imports Vfs
begin

text \<open>
  The list of registered file-system types, \<^verbatim>\<open>fs/filesystems.c\<close>. The list is a chain of
  pointers: \<^verbatim>\<open>file_systems\<close> points to the first type, the field \<^verbatim>\<open>next\<close> of each type to
  the one after it. \<^verbatim>\<open>find_filesystem\<close> returns the address of the pointer at which it
  stopped, which is either \<^verbatim>\<open>file_systems\<close> itself or the field \<^verbatim>\<open>next\<close> of a type.
  The kernel is one without \<^verbatim>\<open>CONFIG_KMOD\<close>: \<^verbatim>\<open>request_module\<close> fails.
\<close>

section \<open>Operations\<close>

datatype fs_link = Head | Next_of ptr

definition read_link :: "fs_link \<Rightarrow> 'a vfs_scheme \<Rightarrow> ptr option" where
  "read_link l s =
     (case l of Head \<Rightarrow> Some (file_systems s) | Next_of p \<Rightarrow> map_option fs_next (fstypes s p))"

definition write_link :: "fs_link \<Rightarrow> ptr \<Rightarrow> 'a vfs_scheme \<Rightarrow> 'a vfs_scheme option" where
  "write_link l v s =
     (case l of
        Head \<Rightarrow> Some (s\<lparr>file_systems := v\<rparr>)
      | Next_of p \<Rightarrow> upd_fstype p (\<lambda>t. t\<lparr>fs_next := v\<rparr>) s)"

definition get_filesystem :: "ptr \<Rightarrow> 'a vfs_scheme \<Rightarrow> 'a vfs_scheme option" where
  "get_filesystem fs s = do { t \<leftarrow> fstypes s fs; module_get (fs_owner t) s }"

definition put_filesystem :: "ptr \<Rightarrow> 'a vfs_scheme \<Rightarrow> 'a vfs_scheme option" where
  "put_filesystem fs s = do { t \<leftarrow> fstypes s fs; module_put (fs_owner t) s }"

partial_function (option) find_filesystem_at ::
  "string \<Rightarrow> fs_link \<Rightarrow> 'a vfs_scheme \<Rightarrow> fs_link option" where
  "find_filesystem_at nm p s =
     Option.bind (read_link p s) (\<lambda>v.
     if v = NULL then Some p
     else Option.bind (fstypes s v) (\<lambda>t.
       if fs_name t = nm then Some p else find_filesystem_at nm (Next_of v) s))"

declare find_filesystem_at.simps [code]

definition find_filesystem :: "string \<Rightarrow> 'a vfs_scheme \<Rightarrow> fs_link option" where
  "find_filesystem nm s = find_filesystem_at nm Head s"

definition register_filesystem :: "ptr \<Rightarrow> 'a vfs_scheme \<Rightarrow> (int \<times> 'a vfs_scheme) option" where
  "register_filesystem fs s =
     (if fs = NULL then Some (- EINVAL, s)
      else do {
        t \<leftarrow> fstypes s fs;
        if fs_next t \<noteq> NULL then Some (- EBUSY, s)
        else do {
          s \<leftarrow> upd_fstype fs (\<lambda>t. t\<lparr>fs_supers := []\<rparr>) s;
          s \<leftarrow> spin_lock File_systems_lock s;
          p \<leftarrow> find_filesystem (fs_name t) s;
          v \<leftarrow> read_link p s;
          (res, s) \<leftarrow> (if v \<noteq> NULL then Some (- EBUSY, s)
                     else do { s \<leftarrow> write_link p fs s; Some (0, s) });
          s \<leftarrow> spin_unlock File_systems_lock s;
          Some (res, s) } })"

partial_function (option) unregister_loop ::
  "ptr \<Rightarrow> fs_link \<Rightarrow> 'a vfs_scheme \<Rightarrow> (int \<times> 'a vfs_scheme) option" where
  "unregister_loop fs tmp s =
     Option.bind (read_link tmp s) (\<lambda>v.
     if v = NULL then
       Option.bind (spin_unlock File_systems_lock s) (\<lambda>s. Some (- EINVAL, s))
     else if fs = v then
       Option.bind (fstypes s fs) (\<lambda>t.
       Option.bind (write_link tmp (fs_next t) s) (\<lambda>s.
       Option.bind (upd_fstype fs (\<lambda>t. t\<lparr>fs_next := NULL\<rparr>) s) (\<lambda>s.
       Option.bind (spin_unlock File_systems_lock s) (\<lambda>s. Some (0, s)))))
     else unregister_loop fs (Next_of v) s)"

declare unregister_loop.simps [code]

definition unregister_filesystem :: "ptr \<Rightarrow> 'a vfs_scheme \<Rightarrow> (int \<times> 'a vfs_scheme) option" where
  "unregister_filesystem fs s = do {
     s \<leftarrow> spin_lock File_systems_lock s;
     unregister_loop fs Head s }"

partial_function (option) fs_index_loop :: "string \<Rightarrow> ptr \<Rightarrow> nat \<Rightarrow> 'a vfs_scheme \<Rightarrow> int option" where
  "fs_index_loop nm tmp index s =
     (if tmp = NULL then Some (- EINVAL)
      else Option.bind (fstypes s tmp) (\<lambda>t.
        if fs_name t = nm then Some (int index)
        else fs_index_loop nm (fs_next t) (index + 1) s))"

declare fs_index_loop.simps [code]

text \<open>\<^verbatim>\<open>fs_index\<close> on the name that \<^verbatim>\<open>getname\<close> has copied into the kernel.\<close>

definition fs_index :: "string \<Rightarrow> 'a vfs_scheme \<Rightarrow> (int \<times> 'a vfs_scheme) option" where
  "fs_index nm s = do {
     s \<leftarrow> spin_lock File_systems_lock s;
     err \<leftarrow> fs_index_loop nm (file_systems s) 0 s;
     s \<leftarrow> spin_unlock File_systems_lock s;
     Some (err, s) }"

text \<open>The index is unsigned: counting down from 0 it wraps around.\<close>

partial_function (option) fs_name_loop ::
  "ptr \<Rightarrow> 32 word \<Rightarrow> 'a vfs_scheme \<Rightarrow> (ptr \<times> 'a vfs_scheme) option" where
  "fs_name_loop tmp index s =
     (if tmp = NULL then Some (NULL, s)
      else Option.bind (fstypes s tmp) (\<lambda>t.
        if index \<le> 0 then
          Option.bind (try_module_get (fs_owner t) s) (\<lambda>(ok, s).
          if ok then Some (tmp, s) else fs_name_loop (fs_next t) (index - 1) s)
        else fs_name_loop (fs_next t) (index - 1) s))"

declare fs_name_loop.simps [code]

definition fs_name_sys :: "32 word \<Rightarrow> ptr \<Rightarrow> 'a vfs_scheme \<Rightarrow> (int \<times> 'a vfs_scheme) option" where
  "fs_name_sys index buf s = do {
     s \<leftarrow> spin_lock File_systems_lock s;
     (tmp, s) \<leftarrow> fs_name_loop (file_systems s) index s;
     s \<leftarrow> spin_unlock File_systems_lock s;
     if tmp = NULL then Some (- EINVAL, s)
     else do {
       t \<leftarrow> fstypes s tmp;
       let (left, s) = copy_to_user buf (fs_name t @ [CHR 0x00]) s in do {
       s \<leftarrow> put_filesystem tmp s;
       Some (if left \<noteq> 0 then - EFAULT else 0, s) } } }"

partial_function (option) fs_maxindex_loop :: "ptr \<Rightarrow> nat \<Rightarrow> 'a vfs_scheme \<Rightarrow> nat option" where
  "fs_maxindex_loop tmp index s =
     (if tmp = NULL then Some index
      else Option.bind (fstypes s tmp) (\<lambda>t. fs_maxindex_loop (fs_next t) (index + 1) s))"

declare fs_maxindex_loop.simps [code]

definition fs_maxindex :: "'a vfs_scheme \<Rightarrow> (nat \<times> 'a vfs_scheme) option" where
  "fs_maxindex s = do {
     s \<leftarrow> spin_lock File_systems_lock s;
     n \<leftarrow> fs_maxindex_loop (file_systems s) 0 s;
     s \<leftarrow> spin_unlock File_systems_lock s;
     Some (n, s) }"

definition FS_REQUIRES_DEV :: "32 word" where
  "FS_REQUIRES_DEV = 1"

partial_function (option) filesystem_list_loop :: "ptr \<Rightarrow> string \<Rightarrow> 'a vfs_scheme \<Rightarrow> string option" where
  "filesystem_list_loop tmp buf s =
     (if tmp = NULL \<or> length buf \<ge> 4096 - 80 then Some buf
      else Option.bind (fstypes s tmp) (\<lambda>t.
        filesystem_list_loop (fs_next t)
          (buf @ (if fs_flags t AND FS_REQUIRES_DEV \<noteq> 0 then [] else ''nodev'') @
           CHR 0x09 # fs_name t @ [CHR 0x0A]) s))"

declare filesystem_list_loop.simps [code]

definition get_filesystem_list :: "'a vfs_scheme \<Rightarrow> (string \<times> 'a vfs_scheme) option" where
  "get_filesystem_list s = do {
     s \<leftarrow> spin_lock File_systems_lock s;
     buf \<leftarrow> filesystem_list_loop (file_systems s) [] s;
     s \<leftarrow> spin_unlock File_systems_lock s;
     Some (buf, s) }"

definition get_fs_type :: "string \<Rightarrow> 'a vfs_scheme \<Rightarrow> (ptr \<times> 'a vfs_scheme) option" where
  "get_fs_type nm s = do {
     s \<leftarrow> spin_lock File_systems_lock s;
     p \<leftarrow> find_filesystem nm s;
     fs \<leftarrow> read_link p s;
     (ok, s) \<leftarrow> (if fs \<noteq> NULL then do { t \<leftarrow> fstypes s fs; try_module_get (fs_owner t) s }
                else Some (True, s));
     s \<leftarrow> spin_unlock File_systems_lock s;
     Some (if ok then fs else NULL, s) }"

text \<open>
  \<open>fs_chain nx p xs\<close>: from \<open>p\<close> on, the links \<open>nx\<close> pass the types \<open>xs\<close> and end. \<open>registered s xs\<close>: the
  registered types are \<open>xs\<close>, in this order, under different names.
\<close>

fun fs_chain :: "(ptr \<rightharpoonup> ptr) \<Rightarrow> ptr \<Rightarrow> ptr list \<Rightarrow> bool" where
  "fs_chain nx p [] \<longleftrightarrow> p = 0"
| "fs_chain nx p (x # xs) \<longleftrightarrow> p = x \<and> x \<noteq> 0 \<and> (\<exists>q. nx x = Some q \<and> fs_chain nx q xs)"

definition fs_links :: "'a vfs_scheme \<Rightarrow> ptr \<rightharpoonup> ptr" where
  "fs_links s p = map_option fs_next (fstypes s p)"

definition fs_named :: "'a vfs_scheme \<Rightarrow> ptr \<Rightarrow> string option" where
  "fs_named s p = map_option fs_name (fstypes s p)"

definition registered :: "'a vfs_scheme \<Rightarrow> ptr list \<Rightarrow> bool" where
  "registered s xs \<longleftrightarrow> fs_chain (fs_links s) (file_systems s) xs \<and> distinct (map (fs_named s) xs)"

definition fs_fresh :: "ptr \<Rightarrow> 'a vfs_scheme \<Rightarrow> bool" where
  "fs_fresh fs s \<longleftrightarrow> fs \<noteq> 0 \<and> fs_links s fs = Some 0 \<and>
     (\<forall>xs. registered s xs \<longrightarrow> fs_named s fs \<notin> fs_named s ` set xs)"

text \<open>The second state is the first up to the types and the list they are in.\<close>

definition only_types :: "'a vfs_scheme \<Rightarrow> 'a vfs_scheme \<Rightarrow> bool" where
  "only_types s s' \<longleftrightarrow> (\<exists>f g. s' = s\<lparr>fstypes := f, file_systems := g\<rparr>)"

section \<open>The list as a list\<close>

lemma only_types_intros [intro]:
  "only_types s (s\<lparr>fstypes := f\<rparr>)" "only_types s (s\<lparr>fstypes := f, file_systems := g\<rparr>)" "only_types s (s\<lparr>file_systems := g, fstypes := f\<rparr>)"
proof -
  have "s\<lparr>fstypes := f\<rparr> = s\<lparr>fstypes := f, file_systems := file_systems s\<rparr>" by simp
  then show "only_types s (s\<lparr>fstypes := f\<rparr>)" unfolding only_types_def by blast
  have "s\<lparr>file_systems := g, fstypes := f\<rparr> = s\<lparr>fstypes := f, file_systems := g\<rparr>" by simp
  then show "only_types s (s\<lparr>file_systems := g, fstypes := f\<rparr>)" unfolding only_types_def by blast
qed (auto simp: only_types_def)

lemma fs_links_Some: "fs_links s p = Some q \<longleftrightarrow> (\<exists>t. fstypes s p = Some t \<and> fs_next t = q)"
  by (auto simp: fs_links_def)

lemma fs_chain_dom: "fs_chain nx p xs \<Longrightarrow> x \<in> set xs \<Longrightarrow> x \<noteq> 0 \<and> (\<exists>q. nx x = Some q)"
  by (induction xs arbitrary: p) auto

lemma fs_chain_frame: "x \<notin> set xs \<Longrightarrow> fs_chain (nx(x \<mapsto> v)) p xs = fs_chain nx p xs"
  by (induction xs arbitrary: p) auto

lemma fs_chain_unique: "fs_chain nx p xs \<Longrightarrow> fs_chain nx p ys \<Longrightarrow> xs = ys"
proof (induction xs arbitrary: p ys)
  case Nil
  then show ?case by (cases ys) auto
next
  case (Cons x xs)
  then show ?case by (cases ys) auto
qed

lemma fs_chain_snoc:
  assumes "fs_chain nx p xs" and "xs \<noteq> []" and "distinct xs" and "y \<notin> set xs" and "nx y = Some 0" and "y \<noteq> 0"
  shows "fs_chain (nx(last xs \<mapsto> y)) p (xs @ [y])"
  using assms
proof (induction xs arbitrary: p)
  case (Cons x xs)
  then obtain q where q: "nx x = Some q" "fs_chain nx q xs" by auto
  show ?case
  proof (cases "xs = []")
    case True
    then show ?thesis using Cons.prems by auto
  next
    case False
    then have "last xs \<noteq> x" using Cons.prems(3) last_in_set [OF False] by auto
    with Cons q False show ?thesis by auto
  qed
qed simp

text \<open>Taking an entry out: the link before it is redirected.\<close>

lemma fs_chain_tail: "fs_chain nx p (xs @ y # ys) \<Longrightarrow> y \<noteq> 0 \<and> (\<exists>q. nx y = Some q \<and> fs_chain nx q ys)"
  by (induction xs arbitrary: p) auto

lemma fs_chain_remove:
  assumes "fs_chain nx p (xs @ y # ys)" and "distinct (xs @ y # ys)" and "xs \<noteq> []" and "nx y = Some q"
  shows "fs_chain (nx(last xs \<mapsto> q)) p (xs @ ys)"
  using assms
proof (induction xs arbitrary: p)
  case (Cons x xs)
  then obtain r where r: "p = x" "x \<noteq> 0" "nx x = Some r" "fs_chain nx r (xs @ y # ys)" by auto
  show ?case
  proof (cases "xs = []")
    case True
    with r Cons.prems have "fs_chain nx q ys" "x \<notin> set ys" by auto
    then have "fs_chain (nx(x \<mapsto> q)) q ys" by (simp add: fs_chain_frame del: fun_upd_apply)
    with True r show ?thesis by (simp add: fun_upd_def)
  next
    case False
    then have "last xs \<noteq> x" using Cons.prems(2) last_in_set [OF False] by auto
    moreover have "fs_chain (nx(last xs \<mapsto> q)) r (xs @ ys)"
      by (rule Cons.IH [OF r(4) _ False Cons.prems(4)]) (use Cons.prems(2) in simp)
    ultimately show ?thesis using False r by (simp add: fun_upd_def)
  qed
qed simp

lemma find_filesystem_at_step:
  assumes "read_link l s = Some x" and "x \<noteq> 0" and "fstypes s x = Some t"
  shows "find_filesystem_at nm l s = (if fs_name t = nm then Some l else find_filesystem_at nm (Next_of x) s)"
    and "read_link (Next_of x) s = Some (fs_next t)" and "fs_named s x = Some (fs_name t)"
proof -
  show "find_filesystem_at nm l s = (if fs_name t = nm then Some l else find_filesystem_at nm (Next_of x) s)"
    using assms by (subst find_filesystem_at.simps) simp
qed (simp_all add: read_link_def fs_named_def assms)

lemma find_filesystem_at_miss:
  assumes "fs_chain (fs_links s) v xs" and "read_link l s = Some v" and "\<forall>x\<in>set xs. fs_named s x \<noteq> Some nm"
  shows "\<exists>l'. find_filesystem_at nm l s = Some l' \<and> read_link l' s = Some 0 \<and> l' = (if xs = [] then l else Next_of (last xs))"
  using assms
proof (induction xs arbitrary: v l)
  case Nil
  then show ?case by (subst find_filesystem_at.simps) simp
next
  case (Cons x xs)
  then obtain t where t: "v = x" "x \<noteq> 0" "fstypes s x = Some t" "fs_chain (fs_links s) (fs_next t) xs"
    by (auto simp: fs_links_Some)
  note st = find_filesystem_at_step [OF Cons.prems(2) [unfolded t(1)] t(2,3)]
  show ?case using Cons.IH [OF t(4) st(2)] Cons.prems(3) st(1,3) by auto
qed

lemma find_filesystem_at_hit:
  assumes "fs_chain (fs_links s) v xs" and "read_link l s = Some v" and "\<exists>x\<in>set xs. fs_named s x = Some nm"
  shows "\<exists>l' x. find_filesystem_at nm l s = Some l' \<and> read_link l' s = Some x \<and> x \<in> set xs \<and> fs_named s x = Some nm"
  using assms
proof (induction xs arbitrary: v l)
  case (Cons x xs)
  then obtain t where t: "v = x" "x \<noteq> 0" "fstypes s x = Some t" "fs_chain (fs_links s) (fs_next t) xs"
    by (auto simp: fs_links_Some)
  note st = find_filesystem_at_step [OF Cons.prems(2) [unfolded t(1)] t(2,3)]
  show ?case
  proof (cases "fs_name t = nm")
    case True
    then show ?thesis using st Cons.prems(2) t(1) by auto
  next
    case False
    with Cons.prems(3) st(3) have "\<exists>y\<in>set xs. fs_named s y = Some nm" by auto
    from Cons.IH [OF t(4) st(2) this] st(1) False show ?thesis by auto
  qed
qed simp

lemma registered_distinct: "registered s xs \<Longrightarrow> distinct xs"
  by (simp add: registered_def distinct_map)

lemma fs_named_upd [simp]:
  "fs_named (s\<lparr>fstypes := (fstypes s)(p \<mapsto> t)\<rparr>) = (fs_named s)(p \<mapsto> fs_name t)"
  "fs_links (s\<lparr>fstypes := (fstypes s)(p \<mapsto> t)\<rparr>) = (fs_links s)(p \<mapsto> fs_next t)"
  by (auto simp: fs_named_def fs_links_def)

lemma fs_frames [simp]:
  "fs_named (held_update f s) = fs_named s" "fs_links (held_update f s) = fs_links s"
  "fs_named (file_systems_update g s) = fs_named s" "fs_links (file_systems_update g s) = fs_links s"
  "read_link l (held_update f s) = read_link l s"
  by (auto simp: fs_named_def fs_links_def read_link_def split: fs_link.split)

lemma fs_upd_same:
  assumes "fstypes s p = Some t"
  shows "fs_name t' = fs_name t \<Longrightarrow> (fs_named s)(p \<mapsto> fs_name t') = fs_named s"
    "fs_next t' = fs_next t \<Longrightarrow> (fs_links s)(p \<mapsto> fs_next t') = fs_links s"
  using assms by (auto simp: fs_named_def fs_links_def)

lemma find_filesystem_miss:
  assumes "registered s xs" and "Some nm \<notin> fs_named s ` set xs"
  obtains l where "find_filesystem nm s = Some l" "read_link l s = Some 0" "l = (if xs = [] then Head else Next_of (last xs))"
  using find_filesystem_at_miss [of s "file_systems s" xs Head nm] assms
  by (force simp: find_filesystem_def registered_def read_link_def)

lemma find_filesystem_hit:
  assumes "registered s xs" and "Some nm \<in> fs_named s ` set xs"
  obtains l x where "find_filesystem nm s = Some l" "read_link l s = Some x" "x \<in> set xs" "fs_named s x = Some nm"
proof -
  have "read_link Head s = Some (file_systems s)" by (simp add: read_link_def)
  moreover have "\<exists>x\<in>set xs. fs_named s x = Some nm" using assms(2) by force
  ultimately show thesis
    using find_filesystem_at_hit [of s "file_systems s" xs Head nm] assms(1) that
    unfolding find_filesystem_def registered_def by blast
qed

lemma register_ok:
  assumes r: "registered s xs" and fs: "fs \<noteq> 0" "fstypes s fs = Some t" "fs_next t = 0" and new: "Some (fs_name t) \<notin> fs_named s ` set xs"
    and h: "File_systems_lock \<notin> held s"
  shows "\<exists>s'. register_filesystem fs s = Some (0, s') \<and> registered s' (xs @ [fs]) \<and> held s' = held s \<and> only_types s s'"
proof -
  let ?t = "t\<lparr>fs_supers := []\<rparr>"
  let ?u = "s\<lparr>fstypes := (fstypes s)(fs \<mapsto> ?t)\<rparr>"
  let ?v = "held_update (insert File_systems_lock) ?u"
  have same: "fs_named ?v = fs_named s" "fs_links ?v = fs_links s" using fs_upd_same [OF fs(2), of ?t] by simp_all
  have rv: "registered ?v xs" using r same by (simp add: registered_def)
  have "fs_named s fs = Some (fs_name t)" using fs(2) by (simp add: fs_named_def)
  then have nin: "fs \<notin> set xs" using new by force
  have newv: "Some (fs_name t) \<notin> fs_named ?v ` set xs" unfolding same by (rule new)
  obtain l where l: "find_filesystem (fs_name t) ?v = Some l" "read_link l ?v = Some 0"
    "l = (if xs = [] then Head else Next_of (last xs))"
    by (rule find_filesystem_miss [OF rv newv])
  show ?thesis
  proof (cases "xs = []")
    case True
    have "register_filesystem fs s = Some (0, s\<lparr>fstypes := (fstypes s)(fs \<mapsto> ?t), file_systems := fs\<rparr>)"
      using l True fs h by (simp add: register_filesystem_def upd_fstype_def write_link_def)
    moreover have "registered (s\<lparr>fstypes := (fstypes s)(fs \<mapsto> ?t), file_systems := fs\<rparr>) [fs]"
      using fs by (simp add: registered_def fs_links_def)
    moreover have "only_types s (s\<lparr>fstypes := (fstypes s)(fs \<mapsto> ?t), file_systems := fs\<rparr>)" by (rule only_types_intros)
    ultimately show ?thesis using True
      by (intro exI [of _ "s\<lparr>fstypes := (fstypes s)(fs \<mapsto> ?t), file_systems := fs\<rparr>"]) simp
  next
    case False
    let ?y = "last xs"
    obtain q where "fs_links s ?y = Some q" using fs_chain_dom [of "fs_links s" _ xs ?y] r False by (auto simp: registered_def)
    then obtain ty where ty: "fstypes s ?y = Some ty" by (auto simp: fs_links_Some)
    have ne: "?y \<noteq> fs" using last_in_set [OF False] nin by auto
    let ?w = "s\<lparr>fstypes := (fstypes s)(fs \<mapsto> ?t, ?y \<mapsto> ty\<lparr>fs_next := fs\<rparr>)\<rparr>"
    have "register_filesystem fs s = Some (0, ?w)"
      using l False fs h ty ne by (simp add: register_filesystem_def upd_fstype_def write_link_def fun_upd_twist)
    moreover have "fs_links ?w = (fs_links s)(?y \<mapsto> fs)" "fs_named ?w = fs_named s"
      using fs ty ne by (auto simp: fs_links_def fs_named_def)
    then have "registered ?w (xs @ [fs])"
      using r False nin fs new fs_chain_snoc [of "fs_links s" "file_systems s" xs fs] registered_distinct [OF r]
        \<open>fs_named s fs = Some (fs_name t)\<close>
      by (auto simp: registered_def fs_links_def)
    moreover have "only_types s ?w" by (rule only_types_intros)
    ultimately show ?thesis by (intro exI [of _ ?w]) simp
  qed
qed

lemma register_busy:
  assumes r: "registered s xs" and fs: "fs \<noteq> 0" "fstypes s fs = Some t" "fs_next t = 0" and dup: "Some (fs_name t) \<in> fs_named s ` set xs"
    and h: "File_systems_lock \<notin> held s"
  shows "register_filesystem fs s = Some (- EBUSY, s\<lparr>fstypes := (fstypes s)(fs \<mapsto> t\<lparr>fs_supers := []\<rparr>)\<rparr>)"
proof -
  let ?t = "t\<lparr>fs_supers := []\<rparr>"
  let ?v = "held_update (insert File_systems_lock) (s\<lparr>fstypes := (fstypes s)(fs \<mapsto> ?t)\<rparr>)"
  have same: "fs_named ?v = fs_named s" "fs_links ?v = fs_links s" using fs_upd_same [OF fs(2), of ?t] by simp_all
  have rv: "registered ?v xs" using r same by (simp add: registered_def)
  have dv: "Some (fs_name t) \<in> fs_named ?v ` set xs" unfolding same by (rule dup)
  obtain l x where l: "find_filesystem (fs_name t) ?v = Some l" "read_link l ?v = Some x" "x \<in> set xs"
    by (rule find_filesystem_hit [OF rv dv])
  have "x \<noteq> 0" using fs_chain_dom l(3) r by (auto simp: registered_def)
  then show ?thesis using l(1,2) fs h by (simp add: register_filesystem_def upd_fstype_def)
qed

lemma unregister_loop_chain:
  assumes "fs_chain (fs_links s) v (xs @ ys)" and "read_link l s = Some v" and "fs \<notin> set xs"
  shows "unregister_loop fs l s = unregister_loop fs (if xs = [] then l else Next_of (last xs)) s"
  using assms
proof (induction xs arbitrary: v l)
  case (Cons x xs)
  then obtain t where t: "v = x" "x \<noteq> 0" "fstypes s x = Some t" "fs_chain (fs_links s) (fs_next t) (xs @ ys)"
    by (auto simp: fs_links_Some)
  have ne: "fs \<noteq> x" "fs \<notin> set xs" using Cons.prems(3) by auto
  have l: "read_link l s = Some x" using Cons.prems(2) t(1) by simp
  have "unregister_loop fs l s = unregister_loop fs (Next_of x) s"
    by (subst unregister_loop.simps) (simp add: l ne(1) t(2))
  also have "\<dots> = unregister_loop fs (if xs = [] then Next_of x else Next_of (last xs)) s"
    by (rule Cons.IH [OF t(4) _ ne(2)]) (simp add: read_link_def t(3))
  finally show ?case by simp
qed simp

lemma unregister_absent:
  assumes r: "registered s xs" and "fs \<notin> set xs" and h: "File_systems_lock \<notin> held s"
  shows "unregister_filesystem fs s = Some (- EINVAL, s)"
proof -
  let ?v = "held_update (insert File_systems_lock) s"
  have c: "fs_chain (fs_links ?v) (file_systems ?v) (xs @ [])" using r by (simp add: registered_def)
  let ?l = "if xs = [] then Head else Next_of (last xs)"
  have "read_link ?l ?v = Some 0"
  proof (cases "xs = []")
    case True then show ?thesis using r by (simp add: registered_def read_link_def)
  next
    case False
    then have "fs_chain (fs_links s) (file_systems s) (butlast xs @ last xs # [])" using r by (simp add: registered_def)
    from fs_chain_tail [OF this] show ?thesis using False by (auto simp: read_link_def fs_links_Some)
  qed
  then have "unregister_loop fs ?l ?v = Some (- EINVAL, s)"
    using h by (subst unregister_loop.simps) simp
  then show ?thesis
    using unregister_loop_chain [OF c, of Head fs] assms(2) h
    by (simp add: unregister_filesystem_def read_link_def)
qed

lemma unregister_ok:
  assumes r: "registered s (xs @ fs # ys)" and h: "File_systems_lock \<notin> held s"
  shows "\<exists>s'. unregister_filesystem fs s = Some (0, s') \<and> registered s' (xs @ ys) \<and> held s' = held s \<and> fs_links s' fs = Some 0 \<and> only_types s s'"
proof -
  let ?v = "held_update (insert File_systems_lock) s"
  note d = registered_distinct [OF r]
  have c: "fs_chain (fs_links s) (file_systems s) (xs @ fs # ys)" using r by (simp add: registered_def)
  obtain q where q: "fs_links s fs = Some q" "fs_chain (fs_links s) q ys" "fs \<noteq> 0" using fs_chain_tail [OF c] by blast
  then obtain t where t: "fstypes s fs = Some t" "fs_next t = q" by (auto simp: fs_links_Some)
  let ?l = "if xs = [] then Head else Next_of (last xs)"
  have go: "unregister_filesystem fs s = unregister_loop fs ?l ?v"
    using unregister_loop_chain [of ?v "file_systems s" xs "fs # ys" Head fs] c d h
    by (simp add: unregister_filesystem_def read_link_def)
  have nm: "distinct (map (fs_named s) (xs @ ys))" using r by (auto simp: registered_def)
  show ?thesis
  proof (cases "xs = []")
    case True
    let ?w = "s\<lparr>file_systems := q, fstypes := (fstypes s)(fs \<mapsto> t\<lparr>fs_next := 0\<rparr>)\<rparr>"
    have "file_systems s = fs" using c True by simp
    then have "unregister_filesystem fs s = Some (0, ?w)"
      unfolding go using True q t h
      by (subst unregister_loop.simps) (simp add: read_link_def write_link_def upd_fstype_def)
    moreover have "fs_links ?w = (fs_links s)(fs \<mapsto> 0)" "fs_named ?w = fs_named s"
      using t by (auto simp: fs_links_def fs_named_def)
    then have "registered ?w (xs @ ys)" "fs_links ?w fs = Some 0"
      using True q(2) d nm by (simp_all add: registered_def fs_chain_frame)
    moreover have "only_types s ?w" by (rule only_types_intros)
    ultimately show ?thesis by (intro exI [of _ ?w]) simp
  next
    case False
    let ?y = "last xs"
    have y: "?y \<in> set xs" "?y \<noteq> fs" using last_in_set [OF False] d by auto
    then obtain u where u: "fstypes s ?y = Some u" "fs_next u = fs"
    proof -
      have "fs_chain (fs_links s) (file_systems s) (butlast xs @ ?y # fs # ys)"
        using c append_butlast_last_id [OF False] by (metis append.assoc append_Cons append_Nil)
      from fs_chain_tail [OF this] that show thesis by (auto simp: fs_links_Some)
    qed
    let ?w = "s\<lparr>fstypes := (fstypes s)(?y \<mapsto> u\<lparr>fs_next := q\<rparr>, fs \<mapsto> t\<lparr>fs_next := 0\<rparr>)\<rparr>"
    have "unregister_filesystem fs s = Some (0, ?w)"
      unfolding go using False q t h u y
      by (subst unregister_loop.simps) (simp add: read_link_def write_link_def upd_fstype_def)
    moreover have w: "fs_links ?w = (fs_links s)(?y \<mapsto> q, fs \<mapsto> 0)" "fs_named ?w = fs_named s"
      using t u y by (auto simp: fs_links_def fs_named_def)
    have "fs_chain ((fs_links s)(?y \<mapsto> q)) (file_systems s) (xs @ ys)"
      by (rule fs_chain_remove [OF c d False q(1)])
    then have "registered ?w (xs @ ys)" "fs_links ?w fs = Some 0"
      using w d nm by (simp_all add: registered_def fs_chain_frame)
    moreover have "only_types s ?w" by (rule only_types_intros)
    ultimately show ?thesis by (intro exI [of _ ?w]) simp
  qed
qed

lemma register_fresh:
  assumes r: "registered s xs" and h: "File_systems_lock \<notin> held s" and fr: "fs_fresh fs s"
  shows "\<exists>s'. register_filesystem fs s = Some (0, s') \<and> registered s' (xs @ [fs]) \<and> held s' = held s \<and> only_types s s'"
proof -
  obtain t where t: "fstypes s fs = Some t" "fs_next t = 0" "fs_named s fs = Some (fs_name t)" "fs \<noteq> 0"
    using fr by (auto simp: fs_fresh_def fs_links_Some fs_named_def)
  have "fs_named s fs \<notin> fs_named s ` set xs" using r fr by (simp add: fs_fresh_def)
  then show ?thesis using register_ok [OF r t(4,1,2) _ h] t(3) by simp
qed

text \<open>Counting and indexing: the number of types, and the position of the type with a name.\<close>

lemma fs_maxindex_loop_chain:
  "fs_chain (fs_links s) p xs \<Longrightarrow> fs_maxindex_loop p n s = Some (n + length xs)"
proof (induction xs arbitrary: p n)
  case Nil
  then show ?case by (subst fs_maxindex_loop.simps) simp
next
  case (Cons x xs)
  then obtain t where "p = x" "x \<noteq> 0" "fstypes s x = Some t" "fs_chain (fs_links s) (fs_next t) xs"
    by (auto simp: fs_links_Some)
  then show ?case using Cons.IH [of "fs_next t" "Suc n"] by (subst fs_maxindex_loop.simps) simp
qed

lemma fs_maxindex_length:
  "registered s xs \<Longrightarrow> File_systems_lock \<notin> held s \<Longrightarrow> fs_maxindex s = Some (length xs, s)"
  using fs_maxindex_loop_chain [of "held_update (insert File_systems_lock) s" "file_systems s" xs 0]
  by (simp add: fs_maxindex_def registered_def)

lemma fs_index_loop_hit:
  assumes "fs_chain (fs_links s) p (xs @ x # ys)" and "Some nm \<notin> fs_named s ` set xs" and "fs_named s x = Some nm"
  shows "fs_index_loop nm p n s = Some (int (n + length xs))"
  using assms
proof (induction xs arbitrary: p n)
  case Nil
  then show ?case by (subst fs_index_loop.simps) (auto simp: fs_named_def)
next
  case (Cons z xs)
  then obtain t where t: "p = z" "z \<noteq> 0" "fstypes s z = Some t" "fs_chain (fs_links s) (fs_next t) (xs @ x # ys)"
    by (auto simp: fs_links_Some)
  have "fs_name t \<noteq> nm" using Cons.prems(2) t(3) by (auto simp: fs_named_def image_iff)
  moreover have "fs_index_loop nm (fs_next t) (n + 1) s = Some (int (n + 1 + length xs))"
    using Cons.IH [OF t(4), of "n + 1"] Cons.prems by auto
  ultimately show ?case using t(1-3) by (subst fs_index_loop.simps) simp
qed

lemma fs_index_loop_miss:
  "fs_chain (fs_links s) p xs \<Longrightarrow> Some nm \<notin> fs_named s ` set xs \<Longrightarrow> fs_index_loop nm p n s = Some (- EINVAL)"
proof (induction xs arbitrary: p n)
  case Nil
  then show ?case by (subst fs_index_loop.simps) simp
next
  case (Cons z xs)
  then obtain t where t: "p = z" "z \<noteq> 0" "fstypes s z = Some t" "fs_chain (fs_links s) (fs_next t) xs"
    by (auto simp: fs_links_Some)
  have "fs_name t \<noteq> nm" using Cons.prems(2) t(3) by (auto simp: fs_named_def image_iff)
  then show ?case using Cons.IH [OF t(4)] Cons.prems(2) t(1-3) by (subst fs_index_loop.simps) simp
qed

lemma fs_index_nth:
  assumes r: "registered s xs" and h: "File_systems_lock \<notin> held s" and k: "k < length xs" "fs_named s (xs ! k) = Some nm"
  shows "fs_index nm s = Some (int k, s)"
proof -
  let ?v = "held_update (insert File_systems_lock) s"
  have e: "xs = take k xs @ xs ! k # drop (Suc k) xs" by (rule id_take_nth_drop [OF k(1)])
  have d: "distinct (map (fs_named s) xs)" and c: "fs_chain (fs_links s) (file_systems s) xs" using r by (simp_all add: registered_def)
  have "Some nm \<notin> fs_named s ` set (take k xs)"
  proof
    assume "Some nm \<in> fs_named s ` set (take k xs)"
    then obtain j where j: "j < k" "fs_named s (xs ! j) = Some nm" using k(1) by (auto simp: in_set_conv_nth)
    then show False using nth_eq_iff_index_eq [OF d, of j k] k by simp
  qed
  then have "fs_index_loop nm (file_systems s) 0 ?v = Some (int (0 + length (take k xs)))"
    using c k by (intro fs_index_loop_hit [where x = "xs ! k" and ys = "drop (Suc k) xs"]) (simp_all flip: e)
  then show ?thesis using h k(1) by (simp add: fs_index_def)
qed

lemma fs_index_none:
  assumes "registered s xs" and "File_systems_lock \<notin> held s" and "Some nm \<notin> fs_named s ` set xs"
  shows "fs_index nm s = Some (- EINVAL, s)"
  using fs_index_loop_miss [of "held_update (insert File_systems_lock) s" "file_systems s" xs nm 0] assms
  by (simp add: fs_index_def registered_def)

text \<open>The name with index \<open>i\<close>, as long as no module reference fails.\<close>

lemma fs_name_loop_chain:
  assumes "fs_chain (fs_links s) p (xs @ x # ys)" and "length xs = unat i"
    and "fstypes s x = Some t" and "try_module_get (fs_owner t) s = Some (True, s')"
  shows "fs_name_loop p i s = Some (x, s')"
  using assms
proof (induction xs arbitrary: p i)
  case Nil
  then have "i = 0" by (simp add: unat_eq_zero)
  with Nil show ?case by (subst fs_name_loop.simps) (auto simp: fs_links_Some)
next
  case (Cons z xs)
  then obtain u where u: "p = z" "z \<noteq> 0" "fstypes s z = Some u" "fs_chain (fs_links s) (fs_next u) (xs @ x # ys)"
    by (auto simp: fs_links_Some)
  have i0: "i \<noteq> 0" using Cons.prems(2) by auto
  have i: "length xs = unat (i - 1)" using Cons.prems(2) unat_minus_one [OF i0] by simp
  have "fs_name_loop z i s = fs_name_loop (fs_next u) (i - 1) s"
    by (subst fs_name_loop.simps) (simp add: i0 u)
  then show ?case using Cons.IH [OF u(4) i Cons.prems(3,4)] u(1) by simp
qed

section \<open>A registry\<close>

text \<open>
  What a registry promises to the modules that enter themselves: an entry not yet listed is appended, a listed
  one is taken out, one that is not listed is refused and nothing changes.
\<close>

locale registry =
  fixes listed :: "'s \<Rightarrow> 'k list \<Rightarrow> bool"
    and fresh :: "'k \<Rightarrow> 's \<Rightarrow> bool"
    and insert_op remove_op :: "'k \<Rightarrow> 's \<Rightarrow> (int \<times> 's) option"
    and idle :: "'s \<Rightarrow> bool"
  assumes listed_unique: "listed s ks \<Longrightarrow> listed s ls \<Longrightarrow> ks = ls"
    and insert_law: "listed s ks \<Longrightarrow> idle s \<Longrightarrow> fresh k s \<Longrightarrow>
      \<exists>s'. insert_op k s = Some (0, s') \<and> listed s' (ks @ [k]) \<and> idle s'"
    and remove_law: "listed s (ks @ k # ls) \<Longrightarrow> idle s \<Longrightarrow>
      \<exists>s'. remove_op k s = Some (0, s') \<and> listed s' (ks @ ls) \<and> idle s'"
    and remove_absent: "listed s ks \<Longrightarrow> idle s \<Longrightarrow> k \<notin> set ks \<Longrightarrow> remove_op k s = Some (- EINVAL, s)"
    and listed_distinct: "listed s ks \<Longrightarrow> distinct ks"
begin

lemma insert_remove:
  assumes "listed s ks" and "idle s" and "fresh k s"
  shows "\<exists>s1 s2. insert_op k s = Some (0, s1) \<and> listed s1 (ks @ [k]) \<and> idle s1 \<and>
    remove_op k s1 = Some (0, s2) \<and> listed s2 ks \<and> idle s2"
proof -
  obtain s1 where s1: "insert_op k s = Some (0, s1)" "listed s1 (ks @ [k])" "idle s1"
    using insert_law [OF assms] by blast
  obtain s2 where "remove_op k s1 = Some (0, s2)" "listed s2 (ks @ [])" "idle s2"
    using remove_law [OF s1(2,3)] by blast
  with s1 show ?thesis by auto
qed

lemma remove_twice:
  assumes "listed s ks" and "idle s" and "k \<in> set ks"
  shows "\<exists>s1. remove_op k s = Some (0, s1) \<and> listed s1 (remove1 k ks) \<and> remove_op k s1 = Some (- EINVAL, s1)"
proof -
  obtain as bs where ks: "ks = as @ k # bs" using split_list [OF assms(3)] by blast
  have d: "k \<notin> set (as @ bs)" "remove1 k ks = as @ bs"
    using listed_distinct [OF assms(1)] by (auto simp: ks remove1_append)
  obtain s1 where "remove_op k s = Some (0, s1)" "listed s1 (as @ bs)" "idle s1"
    using remove_law [of s as k bs] assms ks by blast
  with d remove_absent show ?thesis by auto
qed

end

interpretation fs_registry: registry registered fs_fresh register_filesystem unregister_filesystem
  "\<lambda>s. File_systems_lock \<notin> held s"
proof unfold_locales
  fix s :: "'a vfs_scheme" and ks ls
  show "registered s ks \<Longrightarrow> registered s ls \<Longrightarrow> ks = ls"
    by (auto simp: registered_def intro: fs_chain_unique)
next
  fix s :: "'a vfs_scheme" and ks k
  assume r: "registered s ks" "File_systems_lock \<notin> held s" "fs_fresh k s"
  from register_fresh [OF this]
  show "\<exists>s'. register_filesystem k s = Some (0, s') \<and> registered s' (ks @ [k]) \<and> File_systems_lock \<notin> held s'"
    using r(2) by auto
next
  fix s :: "'a vfs_scheme" and ks k ls
  assume "registered s (ks @ k # ls)" "File_systems_lock \<notin> held s"
  then show "\<exists>s'. unregister_filesystem k s = Some (0, s') \<and> registered s' (ks @ ls) \<and> File_systems_lock \<notin> held s'"
    using unregister_ok by fastforce
next
  fix s :: "'a vfs_scheme" and ks k
  assume "registered s ks" "File_systems_lock \<notin> held s" "k \<notin> set ks"
  then show "unregister_filesystem k s = Some (- EINVAL, s)" using unregister_absent by blast
next
  fix s :: "'a vfs_scheme" and ks
  show "registered s ks \<Longrightarrow> distinct ks" by (rule registered_distinct)
qed

text \<open>The name at an index, as the system call hands it out.\<close>

lemma fs_name_nth:
  assumes r: "registered s xs" and h: "File_systems_lock \<notin> held s" and k: "k < length xs" "length xs \<le> 2 ^ 32"
    and t: "fstypes s (xs ! k) = Some t" "fs_owner t = 0" and u: "user_ok buf (Suc (length (fs_name t))) s"
  shows "\<exists>m. fs_name_sys (of_nat k) buf s = Some (0, s\<lparr>umem := m\<rparr>) \<and>
    user_string buf (Suc (length (fs_name t))) (s\<lparr>umem := m\<rparr>) = fs_name t @ [CHR 0x00]"
proof -
  define v where "v = held_update (insert File_systems_lock) s"
  have e: "xs = take k xs @ xs ! k # drop (Suc k) xs" by (rule id_take_nth_drop [OF k(1)])
  have c: "fs_chain (fs_links v) (file_systems v) (take k xs @ xs ! k # drop (Suc k) xs)"
    using r e by (simp add: registered_def v_def fs_links_def)
  have l: "length (take k xs) = unat (of_nat k :: 32 word)" using k by (simp add: unat_of_nat)
  have tv: "fstypes v (xs ! k) = Some t" "try_module_get (fs_owner t) v = Some (True, v)" using t by (simp_all add: v_def try_module_get_def)
  note n = fs_name_loop_chain [OF c l tv]
  have nz: "xs ! k \<noteq> 0" using fs_chain_dom r k(1) unfolding registered_def by (meson nth_mem)
  have wv: "spin_lock File_systems_lock s = Some v" "spin_unlock File_systems_lock v = Some s" using h by (simp_all add: v_def lock_simps)
  let ?cs = "fs_name t @ [CHR 0x00]"
  obtain m where m: "copy_to_user buf ?cs s = (0, s\<lparr>umem := m\<rparr>)" "\<And>j. j < length ?cs \<Longrightarrow> m (buf + int j) = Some (?cs ! j)"
    using copy_to_user_ok [of buf ?cs s] u by auto
  have "fs_name_sys (of_nat k) buf s = Some (0, s\<lparr>umem := m\<rparr>)"
    unfolding fs_name_sys_def using wv n nz t m(1) by (simp add: put_filesystem_def module_put_def)
  moreover have "user_string buf (Suc (length (fs_name t))) (s\<lparr>umem := m\<rparr>) = ?cs"
    using m(2) by (intro nth_equalityI) (simp_all add: user_string_def del: upt_Suc)
  ultimately show ?thesis by blast
qed

end
