(* ===== verification/Super.thy ===== *)
theory Super
  imports Libfs Filesystems
begin

text \<open>
  Superblocks, \<^verbatim>\<open>fs/super.c\<close>: allocation and the two reference counts, finding or making the
  superblock of a file system, remounting, and shutting one down. The part for block devices
  is left out. The tables of superblock operations that occur have no \<^verbatim>\<open>write_super\<close>,
  \<^verbatim>\<open>put_super\<close>, \<^verbatim>\<open>sync_fs\<close> or \<^verbatim>\<open>remount_fs\<close>; \<^verbatim>\<open>acct_auto_close\<close> and
  \<^verbatim>\<open>sync_blockdev\<close> have nothing to do on a superblock without a device.

  The table of unnamed devices is the list of the numbers in use: \<^verbatim>\<open>idr_get_new\<close> hands out the
  lowest free number, and \<^verbatim>\<open>idr_pre_get\<close> needs one allocation.
\<close>

section \<open>Semaphores of a superblock\<close>

definition down_write :: "ptr \<Rightarrow> 'a vfs_scheme \<Rightarrow> 'a vfs_scheme option" where
  "down_write sb s = do {
     s \<leftarrow> might_sleep s;
     b \<leftarrow> supers s sb;
     if s_umount b = Free then upd_super sb (\<lambda>b. b\<lparr>s_umount := Writer\<rparr>) s else None }"

definition up_write :: "ptr \<Rightarrow> 'a vfs_scheme \<Rightarrow> 'a vfs_scheme option" where
  "up_write sb s = upd_super sb (\<lambda>b. b\<lparr>s_umount := Free\<rparr>) s"

definition down_read :: "ptr \<Rightarrow> 'a vfs_scheme \<Rightarrow> 'a vfs_scheme option" where
  "down_read sb s = do {
     s \<leftarrow> might_sleep s;
     b \<leftarrow> supers s sb;
     case s_umount b of
       Free \<Rightarrow> upd_super sb (\<lambda>b. b\<lparr>s_umount := Readers 1\<rparr>) s
     | Readers n \<Rightarrow> upd_super sb (\<lambda>b. b\<lparr>s_umount := Readers (n + 1)\<rparr>) s
     | Writer \<Rightarrow> None }"

definition up_read :: "ptr \<Rightarrow> 'a vfs_scheme \<Rightarrow> 'a vfs_scheme option" where
  "up_read sb s = upd_super sb (\<lambda>b. b\<lparr>s_umount :=
     (case s_umount b of Readers n \<Rightarrow> if n \<le> 1 then Free else Readers (n - 1) | x \<Rightarrow> x)\<rparr>) s"

definition lock_super :: "ptr \<Rightarrow> 'a vfs_scheme \<Rightarrow> 'a vfs_scheme option" where
  "lock_super sb s = do {
     s \<leftarrow> might_sleep s;
     b \<leftarrow> supers s sb;
     if s_lock b then None else upd_super sb (\<lambda>b. b\<lparr>s_lock := True\<rparr>) s }"

definition unlock_super :: "ptr \<Rightarrow> 'a vfs_scheme \<Rightarrow> 'a vfs_scheme option" where
  "unlock_super sb s = upd_super sb (\<lambda>b. b\<lparr>s_lock := False\<rparr>) s"

section \<open>Allocation and reference counts\<close>

definition MAX_NON_LFS :: "64 word" where
  "MAX_NON_LFS = 0x7FFFFFFF"

definition new_super :: super_block where
  "new_super = \<lparr>s_dev = 0, s_blocksize = 0, s_blocksize_bits = 0, s_dirt = False,
     s_maxbytes = MAX_NON_LFS, s_type = NULL, s_op = Default_op, s_flags = 0, s_magic = 0,
     s_root = NULL, s_umount = Writer, s_lock = False, s_count = S_BIAS, s_active = 1,
     s_inodes = [], s_dirty = [], s_io = [], s_anon = [], s_files = [], s_bdev = NULL, s_id = [],
     s_time_gran = 1000000000\<rparr>"

definition alloc_super :: "'a vfs_scheme \<Rightarrow> (ptr \<times> 'a vfs_scheme) option" where
  "alloc_super s = do {
     (sb, s) \<leftarrow> kalloc s;
     if sb \<noteq> NULL then Some (sb, s\<lparr>supers := (supers s)(sb \<mapsto> new_super)\<rparr>)
     else Some (NULL, s) }"

definition destroy_super :: "ptr \<Rightarrow> 'a vfs_scheme \<Rightarrow> 'a vfs_scheme option" where
  "destroy_super sb s = do {
     b \<leftarrow> supers s sb;
     Some (s\<lparr>supers := (supers s)(sb := None)\<rparr>) }"

definition put_super_locked :: "ptr \<Rightarrow> 'a vfs_scheme \<Rightarrow> (bool \<times> 'a vfs_scheme) option" where
  "put_super_locked sb s = do {
     s \<leftarrow> upd_super sb (\<lambda>b. b\<lparr>s_count := s_count b - 1\<rparr>) s;
     b \<leftarrow> supers s sb;
     if s_count b = 0 then do { s \<leftarrow> destroy_super sb s; Some (True, s) }
     else Some (False, s) }"

definition put_super_and_need_restart :: "ptr \<Rightarrow> 'a vfs_scheme \<Rightarrow> (bool \<times> 'a vfs_scheme) option" where
  "put_super_and_need_restart sb s =
     (if sb \<notin> set (super_blocks s) then do {
        (r, s) \<leftarrow> put_super_locked sb s;
        Some (True, s) }
      else do {
        s \<leftarrow> upd_super sb (\<lambda>b. b\<lparr>s_count := s_count b - 1\<rparr>) s;
        b \<leftarrow> supers s sb;
        if s_count b = 0 then None else Some (False, s) })"

definition put_super :: "ptr \<Rightarrow> 'a vfs_scheme \<Rightarrow> 'a vfs_scheme option" where
  "put_super sb s = do {
     s \<leftarrow> spin_lock Sb_lock s;
     (r, s) \<leftarrow> put_super_locked sb s;
     spin_unlock Sb_lock s }"

definition drop_super :: "ptr \<Rightarrow> 'a vfs_scheme \<Rightarrow> 'a vfs_scheme option" where
  "drop_super sb s = do { s \<leftarrow> up_read sb s; put_super sb s }"

text \<open>\<^verbatim>\<open>grab_super\<close> is entered with the list locked and returns without the lock.\<close>

definition grab_super :: "ptr \<Rightarrow> 'a vfs_scheme \<Rightarrow> (bool \<times> 'a vfs_scheme) option" where
  "grab_super sb s = do {
     s \<leftarrow> upd_super sb (\<lambda>b. b\<lparr>s_count := s_count b + 1\<rparr>) s;
     s \<leftarrow> spin_unlock Sb_lock s;
     s \<leftarrow> down_write sb s;
     b \<leftarrow> supers s sb;
     if s_root b \<noteq> NULL \<and> s_count b > S_BIAS then do {
       s \<leftarrow> spin_lock Sb_lock s;
       s \<leftarrow> upd_super sb (\<lambda>b. b\<lparr>s_active := s_active b + 1, s_count := s_count b - 1\<rparr>) s;
       s \<leftarrow> spin_unlock Sb_lock s;
       Some (True, s) }
     else do {
       s \<leftarrow> up_write sb s;
       s \<leftarrow> put_super sb s;
       Some (False, s) } }"

section \<open>Shutting down\<close>

definition fsync_super :: "ptr \<Rightarrow> 'a vfs_scheme \<Rightarrow> 'a vfs_scheme option" where
  "fsync_super sb s = do {
     s \<leftarrow> sync_inodes_sb sb False s;
     s \<leftarrow> lock_super sb s;
     s \<leftarrow> unlock_super sb s;
     sync_inodes_sb sb True s }"

definition generic_shutdown_super :: "ptr \<Rightarrow> 'a vfs_scheme \<Rightarrow> 'a vfs_scheme option" where
  "generic_shutdown_super sb s = do {
     b \<leftarrow> supers s sb;
     let root = s_root b in do {
     s \<leftarrow> (if root \<noteq> NULL then do {
             s \<leftarrow> upd_super sb (\<lambda>b. b\<lparr>s_root := NULL\<rparr>) s;
             s \<leftarrow> shrink_dcache_parent root s;
             s \<leftarrow> shrink_dcache_anon sb s;
             s \<leftarrow> dput root s;
             s \<leftarrow> fsync_super sb s;
             s \<leftarrow> lock_super sb s;
             s \<leftarrow> upd_super sb (\<lambda>b. b\<lparr>s_flags := s_flags b AND NOT MS_ACTIVE\<rparr>) s;
             (busy1, s) \<leftarrow> invalidate_inodes sb s;
             (busy2, s) \<leftarrow> invalidate_inodes sb s;
             unlock_super sb s }
           else Some s);
     s \<leftarrow> spin_lock Sb_lock s;
     b \<leftarrow> supers s sb;
     s \<leftarrow> upd_fstype (s_type b) (\<lambda>t. t\<lparr>fs_supers := removeAll sb (fs_supers t)\<rparr>)
           (s\<lparr>super_blocks := removeAll sb (super_blocks s)\<rparr>);
     s \<leftarrow> spin_unlock Sb_lock s;
     up_write sb s } }"

definition MINORBITS :: nat where [simp]: "MINORBITS = 20"

definition least_free :: "nat list \<Rightarrow> nat" where
  "least_free ns = hd (filter (\<lambda>n. n \<notin> set ns) [0..<Suc (length ns)])"

definition idr_pre_get :: "'a vfs_scheme \<Rightarrow> bool \<times> 'a vfs_scheme" where
  "idr_pre_get s = (let (p, s) = kalloc_atomic s in (p \<noteq> NULL, s))"

definition idr_remove :: "nat \<Rightarrow> 'a vfs_scheme \<Rightarrow> 'a vfs_scheme" where
  "idr_remove n s = s\<lparr>unnamed_dev_idr := removeAll n (unnamed_dev_idr s)\<rparr>"

definition set_anon_super :: "ptr \<Rightarrow> 'a vfs_scheme \<Rightarrow> (int \<times> 'a vfs_scheme) option" where
  "set_anon_super sb s =
    (let (ok, s) = idr_pre_get s in
     if \<not> ok then Some (- ENOMEM, s)
     else do {
       s \<leftarrow> spin_lock Unnamed_dev_lock s;
       let dev = least_free (unnamed_dev_idr s);
           s = s\<lparr>unnamed_dev_idr := dev # unnamed_dev_idr s\<rparr> in do {
       s \<leftarrow> spin_unlock Unnamed_dev_lock s;
       if dev = 2 ^ MINORBITS then do {
         s \<leftarrow> spin_lock Unnamed_dev_lock s;
         s \<leftarrow> spin_unlock Unnamed_dev_lock (idr_remove dev s);
         Some (- EMFILE, s) }
       else do {
         s \<leftarrow> upd_super sb (\<lambda>b. b\<lparr>s_dev := of_nat (dev mod 2 ^ MINORBITS)\<rparr>) s;
         Some (0, s) } } })"

definition kill_anon_super :: "ptr \<Rightarrow> 'a vfs_scheme \<Rightarrow> 'a vfs_scheme option" where
  "kill_anon_super sb s = do {
     b \<leftarrow> supers s sb;
     let slot = unat (s_dev b) mod 2 ^ MINORBITS in do {
     s \<leftarrow> generic_shutdown_super sb s;
     s \<leftarrow> spin_lock Unnamed_dev_lock s;
     spin_unlock Unnamed_dev_lock (idr_remove slot s) } }"

definition kill_litter_super :: "ptr \<Rightarrow> 'a vfs_scheme \<Rightarrow> 'a vfs_scheme option" where
  "kill_litter_super sb s = do {
     b \<leftarrow> supers s sb;
     s \<leftarrow> (if s_root b \<noteq> NULL then d_genocide (s_root b) s else Some s);
     kill_anon_super sb s }"

definition call_kill_sb :: "kill_sb_op \<Rightarrow> ptr \<Rightarrow> 'a vfs_scheme \<Rightarrow> 'a vfs_scheme option" where
  "call_kill_sb kop sb s =
     (case kop of Kill_litter_super \<Rightarrow> kill_litter_super sb s | Kill_anon_super \<Rightarrow> kill_anon_super sb s)"

definition deactivate_super :: "ptr \<Rightarrow> 'a vfs_scheme \<Rightarrow> 'a vfs_scheme option" where
  "deactivate_super sb s = do {
     b \<leftarrow> supers s sb;
     let fs = s_type b in
     if s_active b \<noteq> 1 then upd_super sb (\<lambda>b. b\<lparr>s_active := s_active b - 1\<rparr>) s
     else do {
       s \<leftarrow> spin_lock Sb_lock s;
       s \<leftarrow> upd_super sb (\<lambda>b. b\<lparr>s_active := s_active b - 1,
                               s_count := s_count b - (S_BIAS - 1)\<rparr>) s;
       s \<leftarrow> spin_unlock Sb_lock s;
       s \<leftarrow> down_write sb s;
       t \<leftarrow> fstypes s fs;
       s \<leftarrow> call_kill_sb (fs_kill_sb t) sb s;
       s \<leftarrow> put_filesystem fs s;
       put_super sb s } }"

section \<open>Finding or making a superblock\<close>

fun find_super :: "(super_block \<Rightarrow> bool) \<Rightarrow> ptr list \<Rightarrow> 'a vfs_scheme \<Rightarrow> ptr option" where
  "find_super test [] s = Some NULL"
| "find_super test (old # p) s = do {
     b \<leftarrow> supers s old;
     if test b then Some old else find_super test p s }"

text \<open>
  \<open>sb\<close> is the superblock allocated so far, \<open>NULL\<close> before there is one. With no \<^verbatim>\<open>test\<close> the
  search is skipped.
\<close>

partial_function (option) sget_retry ::
  "ptr \<Rightarrow> (super_block \<Rightarrow> bool) option \<Rightarrow> (ptr \<Rightarrow> 'a vfs_scheme \<Rightarrow> (int \<times> 'a vfs_scheme) option)
     \<Rightarrow> ptr \<Rightarrow> 'a vfs_scheme \<Rightarrow> (ptr \<times> 'a vfs_scheme) option" where
  "sget_retry type test set' sb s =
     Option.bind (spin_lock Sb_lock s) (\<lambda>s.
     Option.bind (fstypes s type) (\<lambda>t.
     Option.bind (case test of None \<Rightarrow> Some NULL | Some f \<Rightarrow> find_super f (fs_supers t) s) (\<lambda>old.
     if old \<noteq> NULL then
       Option.bind (grab_super old s) (\<lambda>(ok, s).
       if \<not> ok then sget_retry type test set' sb s
       else if sb \<noteq> NULL then Option.bind (destroy_super sb s) (\<lambda>s. Some (old, s))
       else Some (old, s))
     else if sb = NULL then
       Option.bind (spin_unlock Sb_lock s) (\<lambda>s.
       Option.bind (alloc_super s) (\<lambda>(sb, s).
       if sb = NULL then Some (ERR_PTR (- ENOMEM), s) else sget_retry type test set' sb s))
     else
       Option.bind (set' sb s) (\<lambda>(err, s).
       if err \<noteq> 0 then
         Option.bind (spin_unlock Sb_lock s) (\<lambda>s.
         Option.bind (destroy_super sb s) (\<lambda>s. Some (ERR_PTR err, s)))
       else
         Option.bind (upd_super sb (\<lambda>b. b\<lparr>s_type := type, s_id := take 31 (fs_name t)\<rparr>) s) (\<lambda>s.
         Option.bind (upd_fstype type (\<lambda>t. t\<lparr>fs_supers := sb # fs_supers t\<rparr>)
                        (s\<lparr>super_blocks := super_blocks s @ [sb]\<rparr>)) (\<lambda>s.
         Option.bind (spin_unlock Sb_lock s) (\<lambda>s.
         Option.bind (get_filesystem type s) (\<lambda>s. Some (sb, s)))))))))"

declare sget_retry.simps [code]

definition sget ::
  "ptr \<Rightarrow> (super_block \<Rightarrow> bool) option \<Rightarrow> (ptr \<Rightarrow> 'a vfs_scheme \<Rightarrow> (int \<times> 'a vfs_scheme) option)
     \<Rightarrow> 'a vfs_scheme \<Rightarrow> (ptr \<times> 'a vfs_scheme) option" where
  "sget type test set' s = sget_retry type test set' NULL s"

text \<open>The scan of \<^verbatim>\<open>user_get_super\<close> over the list of superblocks.\<close>

fun user_get_super_scan ::
  "32 word \<Rightarrow> ptr list \<Rightarrow> 'a vfs_scheme \<Rightarrow> (ptr \<times> 'a vfs_scheme) option" where
  "user_get_super_scan dev [] s = do {
     s \<leftarrow> spin_unlock Sb_lock s;
     Some (NULL, s) }"
| "user_get_super_scan dev (sb # rest) s = do {
     b \<leftarrow> supers s sb;
     if s_dev b = dev then do {
       s \<leftarrow> upd_super sb (\<lambda>b. b\<lparr>s_count := s_count b + 1\<rparr>) s;
       s \<leftarrow> spin_unlock Sb_lock s;
       s \<leftarrow> down_read sb s;
       b \<leftarrow> supers s sb;
       if s_root b \<noteq> NULL then Some (sb, s)
       else do {
         s \<leftarrow> up_read sb s;
         s \<leftarrow> spin_lock Sb_lock s;
         (restart, s) \<leftarrow> put_super_and_need_restart sb s;
         if restart then None else user_get_super_scan dev rest s } }
     else user_get_super_scan dev rest s }"

definition user_get_super :: "32 word \<Rightarrow> 'a vfs_scheme \<Rightarrow> (ptr \<times> 'a vfs_scheme) option" where
  "user_get_super dev s = do {
     s \<leftarrow> spin_lock Sb_lock s;
     user_get_super_scan dev (super_blocks s) s }"

section \<open>Remounting\<close>

definition FMODE_WRITE :: "32 word" where [simp]: "FMODE_WRITE = 2"

fun may_remount_ro_files :: "ptr list \<Rightarrow> 'a vfs_scheme \<Rightarrow> bool option" where
  "may_remount_ro_files [] s = Some True"
| "may_remount_ro_files (p # ps) s = do {
     f \<leftarrow> files s p;
     d \<leftarrow> dentries s (f_dentry f);
     i \<leftarrow> inodes s (d_inode d);
     if i_nlink i = 0 then Some False
     else if S_ISREG (i_mode i) \<and> f_mode f AND FMODE_WRITE \<noteq> 0 then Some False
     else may_remount_ro_files ps s }"

definition fs_may_remount_ro :: "ptr \<Rightarrow> 'a vfs_scheme \<Rightarrow> (bool \<times> 'a vfs_scheme) option" where
  "fs_may_remount_ro sb s = do {
     s \<leftarrow> spin_lock Files_lock s;
     b \<leftarrow> supers s sb;
     r \<leftarrow> may_remount_ro_files (s_files b) s;
     s \<leftarrow> spin_unlock Files_lock s;
     Some (r, s) }"

fun mark_each_ro :: "ptr list \<Rightarrow> 'a vfs_scheme \<Rightarrow> 'a vfs_scheme option" where
  "mark_each_ro [] s = Some s"
| "mark_each_ro (p # ps) s = do {
     f \<leftarrow> files s p;
     d \<leftarrow> dentries s (f_dentry f);
     i \<leftarrow> inodes s (d_inode d);
     s \<leftarrow> (if S_ISREG (i_mode i)
           then upd_file p (\<lambda>f. f\<lparr>f_mode := f_mode f AND NOT FMODE_WRITE\<rparr>) s
           else Some s);
     mark_each_ro ps s }"

definition mark_files_ro :: "ptr \<Rightarrow> 'a vfs_scheme \<Rightarrow> 'a vfs_scheme option" where
  "mark_files_ro sb s = do {
     s \<leftarrow> spin_lock Files_lock s;
     b \<leftarrow> supers s sb;
     s \<leftarrow> mark_each_ro (s_files b) s;
     spin_unlock Files_lock s }"

text \<open>On a superblock without a device, which is never read-only by itself.\<close>

definition do_remount_sb :: "ptr \<Rightarrow> 64 word \<Rightarrow> bool \<Rightarrow> 'a vfs_scheme \<Rightarrow> (int \<times> 'a vfs_scheme) option" where
  "do_remount_sb sb flags force s = do {
     s \<leftarrow> shrink_dcache_sb sb s;
     s \<leftarrow> fsync_super sb s;
     b \<leftarrow> supers s sb;
     (ok, s) \<leftarrow>
       (if flags AND MS_RDONLY \<noteq> 0 \<and> s_flags b AND MS_RDONLY = 0 then
          if force then do { s \<leftarrow> mark_files_ro sb s; Some (True, s) }
          else fs_may_remount_ro sb s
        else Some (True, s));
     if \<not> ok then Some (- EBUSY, s)
     else do {
       s \<leftarrow> upd_super sb (\<lambda>b. b\<lparr>s_flags :=
              (s_flags b AND NOT MS_RMT_MASK) OR (flags AND MS_RMT_MASK)\<rparr>) s;
       Some (0, s) } }"

section \<open>Superblocks of file systems without a device\<close>

type_synonym 'a fill_super = "ptr \<Rightarrow> ptr \<Rightarrow> bool \<Rightarrow> 'a vfs_scheme \<Rightarrow> (int \<times> 'a vfs_scheme) option"

definition get_sb_nodev ::
  "ptr \<Rightarrow> 64 word \<Rightarrow> ptr \<Rightarrow> 'a fill_super \<Rightarrow> 'a vfs_scheme \<Rightarrow> (ptr \<times> 'a vfs_scheme) option" where
  "get_sb_nodev fs_type flags data fill_super s = do {
     (sb, s) \<leftarrow> sget fs_type None set_anon_super s;
     if IS_ERR sb then Some (sb, s)
     else do {
       s \<leftarrow> upd_super sb (\<lambda>b. b\<lparr>s_flags := flags\<rparr>) s;
       (error, s) \<leftarrow> fill_super sb data (flags AND MS_VERBOSE \<noteq> 0) s;
       if error \<noteq> 0 then do {
         s \<leftarrow> up_write sb s;
         s \<leftarrow> deactivate_super sb s;
         Some (ERR_PTR error, s) }
       else do {
         s \<leftarrow> upd_super sb (\<lambda>b. b\<lparr>s_flags := s_flags b OR MS_ACTIVE\<rparr>) s;
         Some (sb, s) } } }"

definition compare_single :: "super_block \<Rightarrow> bool" where
  "compare_single b = True"

definition get_sb_single ::
  "ptr \<Rightarrow> 64 word \<Rightarrow> ptr \<Rightarrow> 'a fill_super \<Rightarrow> 'a vfs_scheme \<Rightarrow> (ptr \<times> 'a vfs_scheme) option" where
  "get_sb_single fs_type flags data fill_super s = do {
     (sb, s) \<leftarrow> sget fs_type (Some compare_single) set_anon_super s;
     if IS_ERR sb then Some (sb, s)
     else do {
       b \<leftarrow> supers s sb;
       (error, s) \<leftarrow>
         (if s_root b = NULL then do {
            s \<leftarrow> upd_super sb (\<lambda>b. b\<lparr>s_flags := flags\<rparr>) s;
            (error, s) \<leftarrow> fill_super sb data (flags AND MS_VERBOSE \<noteq> 0) s;
            if error \<noteq> 0 then do {
              s \<leftarrow> up_write sb s;
              s \<leftarrow> deactivate_super sb s;
              Some (error, s) }
            else do {
              s \<leftarrow> upd_super sb (\<lambda>b. b\<lparr>s_flags := s_flags b OR MS_ACTIVE\<rparr>) s;
              Some (0, s) } }
          else Some (0, s));
       if error \<noteq> 0 then Some (ERR_PTR error, s)
       else do {
         (r, s) \<leftarrow> do_remount_sb sb flags False s;
         Some (sb, s) } } }"

end
