(* ===== verification/Mount.thy ===== *)
theory Mount
  imports Super
begin

text \<open>
  Mounts: the functions of \<^verbatim>\<open>fs/namespace.c\<close> and \<^verbatim>\<open>include/linux/mount.h\<close> that make, find, attach
  and drop a \<^verbatim>\<open>vfsmount\<close>, the kernel-internal mounts of \<^verbatim>\<open>fs/super.c\<close>, and the mounting
  helpers of \<^verbatim>\<open>fs/libfs.c\<close>. \<open>do_kern_mount\<close> takes the method \<^verbatim>\<open>get_sb\<close> of the file-system
  type as an argument. There is one namespace and no expiry list, and no binary mount data.
\<close>

section \<open>Making and dropping mounts\<close>

definition m_hash :: "ptr \<Rightarrow> ptr \<Rightarrow> 'a vfs_scheme \<Rightarrow> nat" where
  "m_hash mnt dentry s =
     (let tmp = (word_of_int mnt :: 64 word) div L1_CACHE_BYTES + word_of_int dentry div L1_CACHE_BYTES;
          tmp = tmp + drop_bit (m_hash_bits s) tmp
      in unat (tmp AND ucast (m_hash_mask s)))"

definition alloc_vfsmnt :: "string option \<Rightarrow> 'a vfs_scheme \<Rightarrow> (ptr \<times> 'a vfs_scheme) option" where
  "alloc_vfsmnt nm s = do {
     (mnt, s) \<leftarrow> kalloc s;
     if mnt = NULL then Some (NULL, s)
     else do {
       (newname, s) \<leftarrow> (case nm of None \<Rightarrow> Some (NULL, s) | Some n \<Rightarrow> kalloc s);
       Some (mnt, s\<lparr>mounts := (mounts s)(mnt \<mapsto>
         \<lparr>mnt_parent = NULL, mnt_mountpoint = NULL, mnt_root = NULL, mnt_sb = NULL,
          mnt_mounts = [], mnt_count = 1, mnt_flags = 0, mnt_expiry_mark = 0,
          mnt_devname = (if newname \<noteq> NULL then nm else None)\<rparr>)\<rparr>) } }"

definition free_vfsmnt :: "ptr \<Rightarrow> 'a vfs_scheme \<Rightarrow> 'a vfs_scheme option" where
  "free_vfsmnt mnt s = do {
     m \<leftarrow> mounts s mnt;
     Some (s\<lparr>mounts := (mounts s)(mnt := None)\<rparr>) }"

definition mntget :: "ptr \<Rightarrow> 'a vfs_scheme \<Rightarrow> 'a vfs_scheme option" where
  "mntget mnt s =
     (if mnt = NULL then Some s else upd_mount mnt (\<lambda>m. m\<lparr>mnt_count := mnt_count m + 1\<rparr>) s)"

definition mntput_last :: "ptr \<Rightarrow> 'a vfs_scheme \<Rightarrow> 'a vfs_scheme option" where
  "mntput_last mnt s = do {
     m \<leftarrow> mounts s mnt;
     s \<leftarrow> dput (mnt_root m) s;
     s \<leftarrow> free_vfsmnt mnt s;
     deactivate_super (mnt_sb m) s }"

definition mntput_no_expire :: "ptr \<Rightarrow> 'a vfs_scheme \<Rightarrow> 'a vfs_scheme option" where
  "mntput_no_expire mnt s =
     (if mnt = NULL then Some s
      else do {
        s \<leftarrow> upd_mount mnt (\<lambda>m. m\<lparr>mnt_count := mnt_count m - 1\<rparr>) s;
        m \<leftarrow> mounts s mnt;
        if mnt_count m = 0 then mntput_last mnt s else Some s })"

definition mntput :: "ptr \<Rightarrow> 'a vfs_scheme \<Rightarrow> 'a vfs_scheme option" where
  "mntput mnt s =
     (if mnt = NULL then Some s
      else do {
        s \<leftarrow> upd_mount mnt (\<lambda>m. m\<lparr>mnt_expiry_mark := 0\<rparr>) s;
        mntput_no_expire mnt s })"

definition clone_mnt :: "ptr \<Rightarrow> ptr \<Rightarrow> 'a vfs_scheme \<Rightarrow> (ptr \<times> 'a vfs_scheme) option" where
  "clone_mnt old root s = do {
     o' \<leftarrow> mounts s old;
     (mnt, s) \<leftarrow> alloc_vfsmnt (mnt_devname o') s;
     if mnt = NULL then Some (NULL, s)
     else do {
       s \<leftarrow> upd_super (mnt_sb o') (\<lambda>b. b\<lparr>s_active := s_active b + 1\<rparr>) s;
       s \<leftarrow> dget root s;
       s \<leftarrow> upd_mount mnt (\<lambda>m. m\<lparr>mnt_flags := mnt_flags o', mnt_sb := mnt_sb o', mnt_root := root,
                                 mnt_mountpoint := root, mnt_parent := mnt\<rparr>) s;
       Some (mnt, s) } }"

section \<open>The mount tree\<close>

fun lookup_mnt_chain :: "ptr \<Rightarrow> ptr \<Rightarrow> ptr list \<Rightarrow> 'a vfs_scheme \<Rightarrow> (ptr \<times> 'a vfs_scheme) option" where
  "lookup_mnt_chain mnt dentry [] s = Some (NULL, s)"
| "lookup_mnt_chain mnt dentry (p # tmp) s = do {
     m \<leftarrow> mounts s p;
     if mnt_parent m = mnt \<and> mnt_mountpoint m = dentry
     then do { s \<leftarrow> mntget p s; Some (p, s) }
     else lookup_mnt_chain mnt dentry tmp s }"

definition lookup_mnt :: "ptr \<Rightarrow> ptr \<Rightarrow> 'a vfs_scheme \<Rightarrow> (ptr \<times> 'a vfs_scheme) option" where
  "lookup_mnt mnt dentry s = do {
     s \<leftarrow> spin_lock Vfsmount_lock s;
     (found, s) \<leftarrow> lookup_mnt_chain mnt dentry (mount_hashtable s (m_hash mnt dentry s)) s;
     s \<leftarrow> spin_unlock Vfsmount_lock s;
     Some (found, s) }"

text \<open>A \<^verbatim>\<open>nameidata\<close> here is the pair of its mount and its dentry.\<close>

definition detach_mnt :: "ptr \<Rightarrow> 'a vfs_scheme \<Rightarrow> ((ptr \<times> ptr) \<times> 'a vfs_scheme) option" where
  "detach_mnt mnt s = do {
     m \<leftarrow> mounts s mnt;
     s \<leftarrow> upd_mount mnt (\<lambda>m. m\<lparr>mnt_parent := mnt, mnt_mountpoint := mnt_root m\<rparr>) s;
     s \<leftarrow> upd_mount (mnt_parent m) (\<lambda>p. p\<lparr>mnt_mounts := removeAll mnt (mnt_mounts p)\<rparr>) s;
     let s = s\<lparr>mount_hashtable := (\<lambda>b. removeAll mnt (mount_hashtable s b))\<rparr> in do {
     s \<leftarrow> upd_dentry (mnt_mountpoint m) (\<lambda>d. d\<lparr>d_mounted := d_mounted d - 1\<rparr>) s;
     Some ((mnt_parent m, mnt_mountpoint m), s) } }"

definition attach_mnt :: "ptr \<Rightarrow> ptr \<times> ptr \<Rightarrow> 'a vfs_scheme \<Rightarrow> 'a vfs_scheme option" where
  "attach_mnt mnt nd s = do {
     s \<leftarrow> mntget (fst nd) s;
     s \<leftarrow> dget (snd nd) s;
     s \<leftarrow> upd_mount mnt (\<lambda>m. m\<lparr>mnt_parent := fst nd, mnt_mountpoint := snd nd\<rparr>) s;
     let b = m_hash (fst nd) (snd nd) s;
         s = s\<lparr>mount_hashtable := (mount_hashtable s)(b := mnt # mount_hashtable s b)\<rparr> in do {
     s \<leftarrow> upd_mount (fst nd) (\<lambda>p. p\<lparr>mnt_mounts := mnt_mounts p @ [mnt]\<rparr>) s;
     upd_dentry (snd nd) (\<lambda>d. d\<lparr>d_mounted := d_mounted d + 1\<rparr>) s } }"

partial_function (option) next_mnt_up :: "ptr \<Rightarrow> ptr \<Rightarrow> 'a vfs_scheme \<Rightarrow> ptr option" where
  "next_mnt_up p root s =
     (if p = root then Some NULL
      else Option.bind (mounts s p) (\<lambda>m.
        Option.bind (mounts s (mnt_parent m)) (\<lambda>q.
        case after p (mnt_mounts q) of
          n # _ \<Rightarrow> Some n
        | [] \<Rightarrow> next_mnt_up (mnt_parent m) root s)))"

declare next_mnt_up.simps [code]

definition next_mnt :: "ptr \<Rightarrow> ptr \<Rightarrow> 'a vfs_scheme \<Rightarrow> ptr option" where
  "next_mnt p root s = do {
     m \<leftarrow> mounts s p;
     case mnt_mounts m of n # _ \<Rightarrow> Some n | [] \<Rightarrow> next_mnt_up p root s }"

definition may_umount :: "ptr \<Rightarrow> 'a vfs_scheme \<Rightarrow> int option" where
  "may_umount mnt s = do {
     m \<leftarrow> mounts s mnt;
     Some (if mnt_count m > 2 then - EBUSY else 0) }"

section \<open>Kernel-internal mounts\<close>

type_synonym 'a get_sb = "ptr \<Rightarrow> 64 word \<Rightarrow> string \<Rightarrow> ptr \<Rightarrow> 'a vfs_scheme \<Rightarrow> (ptr \<times> 'a vfs_scheme) option"

definition do_kern_mount ::
  "'a get_sb \<Rightarrow> string \<Rightarrow> 64 word \<Rightarrow> string \<Rightarrow> 'a vfs_scheme \<Rightarrow> (ptr \<times> 'a vfs_scheme) option" where
  "do_kern_mount get_sb fstype flags nm s = do {
     (type, s) \<leftarrow> get_fs_type fstype s;
     if type = NULL then Some (ERR_PTR (- ENODEV), s)
     else do {
       (mnt, s) \<leftarrow> alloc_vfsmnt (Some nm) s;
       if mnt = NULL then do {
         s \<leftarrow> put_filesystem type s;
         Some (ERR_PTR (- ENOMEM), s) }
       else do {
         (sb, s) \<leftarrow> get_sb type flags nm NULL s;
         if IS_ERR sb then do {
           s \<leftarrow> free_vfsmnt mnt s;
           s \<leftarrow> put_filesystem type s;
           Some (sb, s) }
         else do {
           b \<leftarrow> supers s sb;
           s \<leftarrow> dget (s_root b) s;
           s \<leftarrow> upd_mount mnt (\<lambda>m. m\<lparr>mnt_sb := sb, mnt_root := s_root b,
                                     mnt_mountpoint := s_root b, mnt_parent := mnt\<rparr>) s;
           s \<leftarrow> up_write sb s;
           s \<leftarrow> put_filesystem type s;
           Some (mnt, s) } } } }"

definition kern_mount :: "'a get_sb \<Rightarrow> ptr \<Rightarrow> 'a vfs_scheme \<Rightarrow> (ptr \<times> 'a vfs_scheme) option" where
  "kern_mount get_sb type s = do {
     t \<leftarrow> fstypes s type;
     do_kern_mount get_sb (fs_name t) 0 (fs_name t) s }"

text \<open>
  \<^verbatim>\<open>simple_pin_fs\<close> and \<^verbatim>\<open>simple_release_fs\<close> get the addresses of the caller's mount pointer and
  counter; the model passes and returns their values.
\<close>

definition simple_pin_fs ::
  "'a get_sb \<Rightarrow> string \<Rightarrow> ptr \<Rightarrow> int \<Rightarrow> 'a vfs_scheme \<Rightarrow> ((int \<times> ptr \<times> int) \<times> 'a vfs_scheme) option" where
  "simple_pin_fs get_sb nm mount count s = do {
     s \<leftarrow> spin_lock Pin_fs_lock s;
     (mnt, s) \<leftarrow>
       (if mount = NULL then do {
          s \<leftarrow> spin_unlock Pin_fs_lock s;
          do_kern_mount get_sb nm 0 nm s }
        else Some (NULL, s));
     if mount = NULL \<and> IS_ERR mnt then Some ((PTR_ERR mnt, mount, count), s)
     else do {
       s \<leftarrow> (if mount = NULL then spin_lock Pin_fs_lock s else Some s);
       let mount = (if mount = NULL then mnt else mount) in do {
       s \<leftarrow> mntget mount s;
       s \<leftarrow> spin_unlock Pin_fs_lock s;
       s \<leftarrow> mntput mnt s;
       Some ((0, mount, count + 1), s) } } }"

definition simple_release_fs ::
  "ptr \<Rightarrow> int \<Rightarrow> 'a vfs_scheme \<Rightarrow> ((ptr \<times> int) \<times> 'a vfs_scheme) option" where
  "simple_release_fs mount count s = do {
     s \<leftarrow> spin_lock Pin_fs_lock s;
     let count = count - 1 in do {
     s \<leftarrow> spin_unlock Pin_fs_lock s;
     s \<leftarrow> mntput mount s;
     Some ((if count = 0 then NULL else mount, count), s) } }"

text \<open>The mount \<open>mnt\<close>, which is nowhere yet, attached at the dentry \<open>dd\<close> of the mount \<open>pm\<close>.\<close>

definition attached :: "ptr \<Rightarrow> ptr \<Rightarrow> ptr \<Rightarrow> vfsmount \<Rightarrow> vfsmount \<Rightarrow> dentry \<Rightarrow> 'a vfs_scheme \<Rightarrow> 'a vfs_scheme" where
  "attached mnt pm dd m p d s = s\<lparr>
     mounts := (mounts s)(mnt \<mapsto> m\<lparr>mnt_parent := pm, mnt_mountpoint := dd\<rparr>,
       pm \<mapsto> p\<lparr>mnt_count := mnt_count p + 1, mnt_mounts := mnt_mounts p @ [mnt]\<rparr>),
     dentries := (dentries s)(dd \<mapsto> d\<lparr>d_count := d_count d + 1, d_mounted := d_mounted d + 1\<rparr>),
     mount_hashtable := (mount_hashtable s)(m_hash pm dd s := mnt # mount_hashtable s (m_hash pm dd s))\<rparr>"

section \<open>The mount tree\<close>

lemma m_hash_frames [simp]:
  "m_hash a b (mounts_update f s) = m_hash a b s" "m_hash a b (dentries_update g s) = m_hash a b s"
  "m_hash a b (mount_hashtable_update h s) = m_hash a b s" "m_hash a b (held_update k s) = m_hash a b s"
  by (simp_all add: m_hash_def)

lemma upd_mount_eq: "mounts s p = Some m \<Longrightarrow> upd_mount p f s = Some (s\<lparr>mounts := (mounts s)(p \<mapsto> f m)\<rparr>)"
  by (simp add: upd_mount_def)

lemma attach_mnt_ok:
  assumes "mounts s mnt = Some m" and "mounts s pm = Some p" "pm \<noteq> 0" "mnt \<noteq> pm" and "dentries s dd = Some d" "dd \<noteq> 0" "d_count d \<noteq> 0"
  shows "attach_mnt mnt (pm, dd) s = Some (attached mnt pm dd m p d s)"
  using assms by (simp add: attach_mnt_def mntget_def dget_def upd_mount_eq upd_dentry_eq Let_def attached_def fun_upd_twist del: upd_dentry_Some)

lemma lookup_mnt_attached:
  assumes "held s = {}" and "mounts s mnt = Some m" and "mnt \<noteq> 0" "mnt \<noteq> pm" and u: "u = attached mnt pm dd m p d s"
  shows "lookup_mnt pm dd u = Some (mnt, u\<lparr>mounts := (mounts u)(mnt \<mapsto> m\<lparr>mnt_parent := pm, mnt_mountpoint := dd, mnt_count := mnt_count m + 1\<rparr>)\<rparr>)"
proof -
  have hu: "held u = {}" "mounts u mnt = Some (m\<lparr>mnt_parent := pm, mnt_mountpoint := dd\<rparr>)"
      "mount_hashtable u (m_hash pm dd u) = mnt # mount_hashtable s (m_hash pm dd s)"
    using assms(1-4) by (simp_all add: u attached_def)
  have hi: "held_update (\<lambda>x. x - {Vfsmount_lock}) u = u" by (rule held_idem) (simp add: hu)
  then show ?thesis using hu assms(3) by (simp add: lookup_mnt_def mntget_def upd_mount_eq lock_simps hi)
qed

lemma detach_mnt_attached:
  assumes m: "mounts s mnt = Some m" "mounts s pm = Some p" "mnt \<noteq> pm" and d: "dentries s dd = Some d"
    and new: "\<And>b. mnt \<notin> set (mount_hashtable s b)" "mnt \<notin> set (mnt_mounts p)"
  shows "\<exists>s'. detach_mnt mnt (attached mnt pm dd m p d s) = Some ((pm, dd), s') \<and> mount_hashtable s' = mount_hashtable s \<and>
    dentries s' = (dentries s)(dd \<mapsto> d\<lparr>d_count := d_count d + 1\<rparr>) \<and>
    mounts s' = (mounts s)(mnt \<mapsto> m\<lparr>mnt_parent := mnt, mnt_mountpoint := mnt_root m\<rparr>, pm \<mapsto> p\<lparr>mnt_count := mnt_count p + 1\<rparr>)"
proof -
  have "(\<lambda>b. removeAll mnt (((mount_hashtable s)(m_hash pm dd s := mnt # mount_hashtable s (m_hash pm dd s))) b)) = mount_hashtable s"
    using new(1) by (auto simp: fun_eq_iff removeAll_id)
  then show ?thesis using m d new(2)
    by (simp add: detach_mnt_def attached_def upd_mount_eq upd_dentry_eq Let_def removeAll_id fun_upd_twist del: upd_dentry_Some)
qed

end
