(* ===== verification/Aufs.thy ===== *)
theory Aufs
  imports Namei Mount
begin

text \<open>
  The module aufs, \<^verbatim>\<open>src/aufs\<close>: the inodes of \<^verbatim>\<open>node.h\<close>, the creation by name of \<^verbatim>\<open>dentry.h\<close>, the
  files of \<^verbatim>\<open>file.h\<close>, the superblock of \<^verbatim>\<open>supper.h\<close> and the module itself, \<^verbatim>\<open>aufs.c\<close>. The
  state adds the two variables of the module and the address of its file-system type.

  The module is written for a later kernel than the one beside it: \<^verbatim>\<open>i_private\<close> and
  \<^verbatim>\<open>__i_nlink\<close> are fields of the inode there, and \<^verbatim>\<open>mount_single\<close>, \<^verbatim>\<open>kern_mount\<close> for a
  type with a method \<^verbatim>\<open>mount\<close>, and \<^verbatim>\<open>kern_unmount\<close> are its functions. These three are
  arguments of the definitions that call them.
\<close>

record aufs = vfs +
  enabled :: int
  aufs_mount :: ptr
  aufs_type_at :: ptr

section \<open>node.h\<close>

definition aufs_get_inode ::
  "ptr \<Rightarrow> 32 word \<Rightarrow> 32 word \<Rightarrow> 'a vfs_scheme \<Rightarrow> (ptr \<times> 'a vfs_scheme) option" where
  "aufs_get_inode sb mode dev s = do {
     (inode, s) \<leftarrow> new_inode sb s;
     if inode = NULL then Some (NULL, s)
     else do {
       s \<leftarrow> upd_inode inode (\<lambda>i. i\<lparr>i_mode := ucast mode, i_uid := cur_fsuid s, i_gid := cur_fsgid s,
              i_blocks := 0, i_mtime := i_ctime i, i_atime := i_ctime i\<rparr>) s;
       s \<leftarrow> (if mode AND S_IFMT = S_IFREG then Some s
             else if mode AND S_IFMT = S_IFDIR then
               upd_inode inode (\<lambda>i. i\<lparr>i_op := Simple_dir_inode_operations,
                 i_fop := Simple_dir_operations, i_nlink := i_nlink i + 1\<rparr>) s
             else init_special_inode inode (ucast mode) dev s);
       Some (inode, s) } }"

definition aufs_mknod ::
  "ptr \<Rightarrow> ptr \<Rightarrow> 32 word \<Rightarrow> 32 word \<Rightarrow> 'a vfs_scheme \<Rightarrow> (int \<times> 'a vfs_scheme) option" where
  "aufs_mknod dir dentry mode dev s = do {
     d \<leftarrow> dentries s dentry;
     if d_inode d \<noteq> NULL then Some (- EEXIST, s)
     else do {
       di \<leftarrow> inodes s dir;
       (inode, s) \<leftarrow> aufs_get_inode (i_sb di) mode dev s;
       if inode = NULL then Some (- EPERM, s)
       else do {
         s \<leftarrow> d_instantiate dentry inode s;
         s \<leftarrow> dget dentry s;
         Some (0, s) } } }"

definition aufs_mkdir :: "ptr \<Rightarrow> ptr \<Rightarrow> 32 word \<Rightarrow> 'a vfs_scheme \<Rightarrow> (int \<times> 'a vfs_scheme) option" where
  "aufs_mkdir dir dentry mode s = do {
     (res, s) \<leftarrow> aufs_mknod dir dentry (mode OR S_IFDIR) 0 s;
     s \<leftarrow> (if res = 0 then upd_inode dir (\<lambda>i. i\<lparr>i_nlink := i_nlink i + 1\<rparr>) s else Some s);
     Some (res, s) }"

definition aufs_create :: "ptr \<Rightarrow> ptr \<Rightarrow> 32 word \<Rightarrow> 'a vfs_scheme \<Rightarrow> (int \<times> 'a vfs_scheme) option" where
  "aufs_create dir dentry mode s = aufs_mknod dir dentry (mode OR S_IFREG) 0 s"

section \<open>dentry.h\<close>

text \<open>
  The argument \<open>slot\<close> is the address of the caller's pointer variable, whose new value is part of
  the result. The code tests the address, not the value, for an error.
\<close>

definition aufs_create_by_name ::
  "string \<Rightarrow> 32 word \<Rightarrow> ptr \<Rightarrow> ptr \<Rightarrow> ptr \<Rightarrow> 'a aufs_scheme \<Rightarrow> ((int \<times> ptr) \<times> 'a aufs_scheme) option" where
  "aufs_create_by_name nm mode parent slot dentry s = do {
     parent \<leftarrow> (if parent = NULL \<and> aufs_mount s \<noteq> NULL then do {
                  m \<leftarrow> mounts s (aufs_mount s);
                  if mnt_sb m \<noteq> NULL then do { b \<leftarrow> supers s (mnt_sb m); Some (s_root b) }
                  else Some NULL }
                else Some parent);
     if parent = NULL then Some ((- EFAULT, dentry), s)
     else do {
       (dentry, s) \<leftarrow> lookup_one_len i_op_lookup nm parent (length nm) s;
       if \<not> IS_ERR slot then do {
         p \<leftarrow> dentries s parent;
         (error, s) \<leftarrow> (if mode AND S_IFMT = S_IFDIR then aufs_mkdir (d_inode p) dentry mode s
                       else aufs_create (d_inode p) dentry mode s);
         Some ((error, dentry), s) }
       else Some ((PTR_ERR slot, dentry), s) } }"

section \<open>file.h\<close>

text \<open>The address of a variable on the kernel stack: all that matters is that it is no error.\<close>

definition dentry_slot :: ptr where
  "dentry_slot = 0x1000"

definition aufs_create_file ::
  "string \<Rightarrow> 32 word \<Rightarrow> ptr \<Rightarrow> ptr \<Rightarrow> file_operations option \<Rightarrow> 'a aufs_scheme
     \<Rightarrow> (ptr \<times> 'a aufs_scheme) option" where
  "aufs_create_file nm mode parent data fops s = do {
     ((error, dentry), s) \<leftarrow> aufs_create_by_name nm mode parent dentry_slot NULL s;
     if error \<noteq> 0 then Some (NULL, s)
     else do {
       d \<leftarrow> dentries s dentry;
       s \<leftarrow> (if d_inode d \<noteq> NULL then do {
               s \<leftarrow> (if data \<noteq> NULL then upd_inode (d_inode d) (\<lambda>i. i\<lparr>i_private := data\<rparr>) s
                     else Some s);
               (case fops of
                  Some f \<Rightarrow> upd_inode (d_inode d) (\<lambda>i. i\<lparr>i_fop := f\<rparr>) s
                | None \<Rightarrow> Some s) }
             else Some s);
       Some (dentry, s) } }"

definition aufs_create_dir :: "string \<Rightarrow> ptr \<Rightarrow> 'a aufs_scheme \<Rightarrow> (ptr \<times> 'a aufs_scheme) option" where
  "aufs_create_dir nm parent s =
     aufs_create_file nm (S_IFDIR OR S_IRWXU OR S_IRUGO) parent NULL None s"

text \<open>The C literals end in an escaped backslash and an \<^verbatim>\<open>n\<close>, not in a newline.\<close>

definition backslash_n :: string where
  "backslash_n = [CHR 0x5C, CHR ''n'']"

definition aufs_file_read ::
  "ptr \<Rightarrow> ptr \<Rightarrow> nat \<Rightarrow> int \<Rightarrow> 'a aufs_scheme \<Rightarrow> (int \<times> int) \<times> 'a aufs_scheme" where
  "aufs_file_read fle buf nbytes ppos s =
    (let str = (if enabled s \<noteq> 0 then ''aufs read enabled'' @ backslash_n
                else ''aufs read disabled'' @ backslash_n)
     in simple_read_from_buffer buf nbytes ppos str (length str) s)"

text \<open>The first byte of the buffer is read without a check; a bad address is an oops.\<close>

definition aufs_file_write ::
  "ptr \<Rightarrow> ptr \<Rightarrow> nat \<Rightarrow> int \<Rightarrow> 'a aufs_scheme \<Rightarrow> (int \<times> 'a aufs_scheme) option" where
  "aufs_file_write fle buffer count ppos s = do {
     c \<leftarrow> umem s buffer;
     let res = int (of_char c) - int (of_char (CHR ''0'')) in
     Some (int count, s\<lparr>enabled := (if res \<noteq> 0 then 1 else 0)\<rparr>) }"

section \<open>supper.h\<close>

definition AUFS_MAGIC :: "64 word" where
  "AUFS_MAGIC = 0x64668735"

definition debug_files :: "tree_descr list" where
  "debug_files = [\<lparr>td_name = Some [], td_ops = Empty_fops, td_mode = 0\<rparr>]"

definition aufs_fill_super :: "'a fill_super" where
  "aufs_fill_super sb data silent s = simple_fill_super sb AUFS_MAGIC debug_files s"

type_synonym 'a mount_single =
  "ptr \<Rightarrow> 64 word \<Rightarrow> ptr \<Rightarrow> 'a fill_super \<Rightarrow> 'a vfs_scheme \<Rightarrow> (ptr \<times> 'a vfs_scheme) option"

definition aufs_get_sb ::
  "'a mount_single \<Rightarrow> ptr \<Rightarrow> 64 word \<Rightarrow> string \<Rightarrow> ptr \<Rightarrow> 'a vfs_scheme \<Rightarrow> (ptr \<times> 'a vfs_scheme) option" where
  "aufs_get_sb mount_single fs_type flags dev_name data s =
     mount_single fs_type flags data aufs_fill_super s"

section \<open>aufs.c\<close>

definition aufs_type :: file_system_type where
  "aufs_type = \<lparr>fs_name = ''aufs'', fs_flags = 0, fs_kill_sb = Kill_litter_super,
     fs_owner = NULL, fs_next = NULL, fs_supers = []\<rparr>"

definition aufs_create_regular :: "string \<Rightarrow> ptr \<Rightarrow> 'a aufs_scheme \<Rightarrow> 'a aufs_scheme option" where
  "aufs_create_regular nm pslot s = do {
     (d, s) \<leftarrow> aufs_create_file nm (S_IFREG OR S_IRUGO) pslot NULL (Some Aufs_file_operations) s;
     Some s }"

definition aufs_init ::
  "(ptr \<Rightarrow> 'a aufs_scheme \<Rightarrow> (ptr \<times> 'a aufs_scheme) option) \<Rightarrow> 'a aufs_scheme
     \<Rightarrow> (int \<times> 'a aufs_scheme) option" where
  "aufs_init kern_mount_fn s = do {
     (ret, s) \<leftarrow> register_filesystem (aufs_type_at s) s;
     if ret \<noteq> 0 then Some (ret, s)
     else do {
       (mnt, s) \<leftarrow> kern_mount_fn (aufs_type_at s) s;
       let s = s\<lparr>aufs_mount := mnt\<rparr> in
       if IS_ERR mnt then do {
         (r, s) \<leftarrow> unregister_filesystem (aufs_type_at s) s;
         Some (ret, s) }
       else do {
         (pslot, s) \<leftarrow> aufs_create_dir ''woman_star'' NULL s;
         s \<leftarrow> aufs_create_regular ''lbb'' pslot s;
         s \<leftarrow> aufs_create_regular ''fbb'' pslot s;
         s \<leftarrow> aufs_create_regular ''lj1'' pslot s;
         (pslot, s) \<leftarrow> aufs_create_dir ''man_star'' NULL s;
         s \<leftarrow> aufs_create_regular ''ldh'' pslot s;
         s \<leftarrow> aufs_create_regular ''lcw'' pslot s;
         s \<leftarrow> aufs_create_regular ''jw'' pslot s;
         Some (ret, s) } } }"

definition aufs_exit ::
  "(ptr \<Rightarrow> 'a aufs_scheme \<Rightarrow> 'a aufs_scheme option) \<Rightarrow> 'a aufs_scheme \<Rightarrow> 'a aufs_scheme option" where
  "aufs_exit kern_unmount s = do {
     s \<leftarrow> kern_unmount (aufs_mount s) s;
     (r, s) \<leftarrow> unregister_filesystem (aufs_type_at s) s;
     Some (s\<lparr>aufs_mount := NULL\<rparr>) }"

text \<open>The inode of aufs for a regular file or a directory.\<close>

definition aufs_inode :: "ptr \<Rightarrow> super_block \<Rightarrow> 32 word \<Rightarrow> 'a icache_scheme \<Rightarrow> inode" where
  "aufs_inode sb b mode s =
     (let i = fresh_inode sb b s;
          i = i\<lparr>i_mode := ucast mode, i_uid := cur_fsuid s, i_gid := cur_fsgid s, i_blocks := 0,
                i_mtime := i_ctime i, i_atime := i_ctime i\<rparr>
      in if mode AND S_IFMT = S_IFDIR then i\<lparr>i_op := Simple_dir_inode_operations, i_fop := Simple_dir_operations, i_nlink := 2\<rparr>
         else i)"

definition file_or_dir :: "32 word \<Rightarrow> bool" where
  "file_or_dir mode \<longleftrightarrow> mode AND S_IFMT = S_IFREG \<or> mode AND S_IFMT = S_IFDIR"

text \<open>The state after an inode has been made for the negative dentry \<open>d\<close> at \<open>p\<close>.\<close>

definition with_node :: "ptr \<Rightarrow> dentry \<Rightarrow> ptr \<Rightarrow> super_block \<Rightarrow> 32 word \<Rightarrow> 'a dcache_scheme \<Rightarrow> 'a dcache_scheme" where
  "with_node p d sb b mode s =
     (with_inode sb b ((aufs_inode sb b mode s)\<lparr>i_dentry := [p]\<rparr>) s)\<lparr>dentries := (dentries s)(p \<mapsto>
        d\<lparr>d_inode := next_addr s, d_count := d_count d + 1\<rparr>)\<rparr>"

text \<open>
  The mode with which \<^verbatim>\<open>aufs_create_by_name\<close> ends up calling \<^verbatim>\<open>aufs_mknod\<close>, the inode it makes, and the state after a
  name that was not there has been created under the dentry \<open>q\<close> at \<open>r\<close>, whose inode is \<open>i\<close>.
\<close>

definition by_name_mode :: "32 word \<Rightarrow> 32 word" where
  "by_name_mode mode = (if mode AND S_IFMT = S_IFDIR then mode OR S_IFDIR else mode OR S_IFREG)"

definition creatable :: "32 word \<Rightarrow> bool" where
  "creatable mode \<longleftrightarrow> mode AND S_IFMT = 0 \<or> file_or_dir mode"

definition entry_dentry :: "ptr \<Rightarrow> dentry \<Rightarrow> string \<Rightarrow> 'a dcache_scheme \<Rightarrow> dentry" where
  "entry_dentry r q nm s = (neg_child r (d_sb q) (mk_qstr nm) s)\<lparr>d_inode := next_addr s + name_blocks (mk_qstr nm), d_count := 2\<rparr>"

definition with_entry :: "ptr \<Rightarrow> dentry \<Rightarrow> inode \<Rightarrow> super_block \<Rightarrow> string \<Rightarrow> 32 word \<Rightarrow> 'a dcache_scheme \<Rightarrow> 'a dcache_scheme" where
  "with_entry r q i b nm mode s =
     (let s' = with_node (next_addr s) (neg_child r (d_sb q) (mk_qstr nm) s) (i_sb i) b (by_name_mode mode)
                 (with_neg r q (mk_qstr nm) s)
      in if mode AND S_IFMT = S_IFDIR then s'\<lparr>inodes := (inodes s')(d_inode q \<mapsto> i\<lparr>i_nlink := i_nlink i + 1\<rparr>)\<rparr> else s')"

definition entry_inode :: "inode \<Rightarrow> super_block \<Rightarrow> string \<Rightarrow> 32 word \<Rightarrow> ptr \<Rightarrow> file_operations option \<Rightarrow> 'a dcache_scheme \<Rightarrow> inode" where
  "entry_inode i b nm mode data fops s =
     (let j = (aufs_inode (i_sb i) b (by_name_mode mode) (next_addr_update (\<lambda>a. a + name_blocks (mk_qstr nm)) s))\<lparr>i_dentry := [next_addr s]\<rparr>;
          j = (if data \<noteq> NULL then j\<lparr>i_private := data\<rparr> else j)
      in (case fops of Some f \<Rightarrow> j\<lparr>i_fop := f\<rparr> | None \<Rightarrow> j))"

text \<open>What a creation leaves alone.\<close>

definition aufs_frame :: "'a aufs_scheme \<Rightarrow> 'a aufs_scheme \<Rightarrow> bool" where
  "aufs_frame s s' \<longleftrightarrow> held s' = held s \<and> mem_ok s' = mem_ok s \<and> cur_caps s' = cur_caps s \<and> mounts s' = mounts s \<and>
     aufs_mount s' = aufs_mount s \<and> aufs_type_at s' = aufs_type_at s \<and> fstypes s' = fstypes s \<and>
     file_systems s' = file_systems s \<and> super_blocks s' = super_blocks s \<and> enabled s' = enabled s \<and> umem s' = umem s"

text \<open>
  The creation of the entry \<open>nm\<close> under \<open>r\<close>: its dentry and its inode are new, the parent has one child and one reference
  more, and one link more if the entry is a directory.
\<close>

definition created :: "ptr \<Rightarrow> string \<Rightarrow> 32 word \<Rightarrow> ptr \<Rightarrow> file_operations option \<Rightarrow> 'a aufs_scheme \<Rightarrow> 'a aufs_scheme \<Rightarrow> bool" where
  "created r nm mode data fops s s' \<longleftrightarrow>
     (\<exists>q i b. dentries s r = Some q \<and> inodes s (d_inode q) = Some i \<and> supers s (i_sb i) = Some b \<and>
        next_addr s' = next_addr s + name_blocks (mk_qstr nm) + 1 \<and>
        supers s' = (supers s)(i_sb i \<mapsto> b\<lparr>s_inodes := (next_addr s + name_blocks (mk_qstr nm)) # s_inodes b\<rparr>) \<and>
        dentries s' = (dentries s)(r \<mapsto> q\<lparr>d_count := d_count q + 1, d_subdirs := next_addr s # d_subdirs q\<rparr>,
          next_addr s \<mapsto> entry_dentry r q nm s) \<and>
        inodes s' = (inodes s)(d_inode q \<mapsto> (if mode AND S_IFMT = S_IFDIR then i\<lparr>i_nlink := i_nlink i + 1\<rparr> else i),
          next_addr s + name_blocks (mk_qstr nm) \<mapsto> entry_inode i b nm mode data fops s))"

section \<open>Creating inodes and entries\<close>

lemma aufs_inode_simps [simp]:
  "i_sb (aufs_inode sb b mode s) = sb" "quiet (aufs_inode sb b mode s)" "i_count (aufs_inode sb b mode s) = 1"
  "\<not> i_hashed (aufs_inode sb b mode s)" "i_dentry (aufs_inode sb b mode s) = []" "i_mode (aufs_inode sb b mode s) = ucast mode"
  by (simp_all add: aufs_inode_def Let_def) (simp_all add: quiet_def fresh_inode_def)

lemma aufs_get_inode_ok:
  assumes "held s = {}" and "mem_ok s (next_addr s)" and "next_addr s \<noteq> 0" and "supers s sb = Some b" and "file_or_dir mode"
  shows "aufs_get_inode sb mode dev s = Some (next_addr s, with_inode sb b (aufs_inode sb b mode s) s)"
proof -
  have n: "new_inode sb s = Some (next_addr s, with_inode sb b (fresh_inode sb b s) s)"
    unfolding with_inode_def by (rule new_inode_ok [OF assms(1-4)])
  have "inodes (with_inode sb b (fresh_inode sb b s) s) (next_addr s) = Some (fresh_inode sb b s)" by (simp add: with_inode_def)
  then show ?thesis using n assms(3,5)
    by (auto simp: aufs_get_inode_def file_or_dir_def upd_inode_eq aufs_inode_def with_inode_def Let_def simp del: upd_inode_Some)
qed

lemma aufs_get_inode_fail:
  assumes "held s = {}" and "\<not> mem_ok s (next_addr s)" and "supers s sb = Some b"
  shows "aufs_get_inode sb mode dev s = Some (0, s\<lparr>next_addr := next_addr s + 1\<rparr>)"
  using new_inode_fail [OF assms] by (simp add: aufs_get_inode_def)

lemma aufs_mknod_ok:
  assumes wf: "dcache_wf s" and h: "held s = {}" and m: "mem_ok s (next_addr s)" and p: "dentries s p = Some d" "d_inode d = 0" "0 < d_count d"
    and i: "inodes s dir = Some i" "supers s (i_sb i) = Some b" and f: "file_or_dir mode"
  shows "aufs_mknod dir p mode dev s = Some (0, with_node p d (i_sb i) b mode s)"
    and "dcache_wf (with_node p d (i_sb i) b mode s)"
proof -
  let ?n = "next_addr s" and ?j = "aufs_inode (i_sb i) b mode s"
  define u where "u = with_inode (i_sb i) b ?j s"
  have n: "0 < ?n" by (rule icache_wfD(1) [OF dcache_wfD(1) [OF wf]])
  have g: "aufs_get_inode (i_sb i) mode dev s = Some (?n, u)"
    unfolding u_def by (rule aufs_get_inode_ok) (use h m n i f in simp_all)
  have wu: "dcache_wf u" unfolding u_def by (rule with_inode_dcache [OF wf i(2)]) simp_all
  have u: "held u = {}" "dentries u p = Some d" "inodes u ?n = Some ?j" using h p by (simp_all add: u_def with_inode_def)
  define v where "v = u\<lparr>inodes := (inodes u)(?n \<mapsto> ?j\<lparr>i_dentry := p # i_dentry ?j\<rparr>), dentries := (dentries u)(p \<mapsto> d\<lparr>d_inode := ?n\<rparr>)\<rparr>"
  have v: "d_instantiate p ?n u = Some v" unfolding v_def
    by (rule d_instantiate_ok [OF u(1,2) p(2) no_inode_0 [OF dcache_wfD(1) [OF wu]] u(3)])
  have wv: "dcache_wf v" unfolding v_def by (rule d_instantiate_wf [OF wu u(2) p(2) u(3)]) simp
  have pv: "dentries v p = Some (d\<lparr>d_inode := ?n\<rparr>)" "p \<noteq> 0" using dentry_parent_pos(2) [OF wf p(1)] by (auto simp: v_def)
  have w: "v\<lparr>dentries := (dentries v)(p \<mapsto> (d\<lparr>d_inode := ?n\<rparr>)\<lparr>d_count := d_count (d\<lparr>d_inode := ?n\<rparr>) + 1\<rparr>)\<rparr> = with_node p d (i_sb i) b mode s"
    by (simp add: v_def u_def with_node_def with_inode_def)
  show "dcache_wf (with_node p d (i_sb i) b mode s)" using dget_wf [OF wv pv(1)] unfolding w .
  have "dget p v = Some (with_node p d (i_sb i) b mode s)"
    using pv p(3) w by (simp add: dget_def upd_dentry_eq del: upd_dentry_Some)
  then show "aufs_mknod dir p mode dev s = Some (0, with_node p d (i_sb i) b mode s)"
    using p(1,2) i g v n by (simp add: aufs_mknod_def)
qed

lemma aufs_mknod_exists:
  assumes "dentries s p = Some d" and "d_inode d \<noteq> 0"
  shows "aufs_mknod dir p mode dev s = Some (- EEXIST, s)"
  using assms by (simp add: aufs_mknod_def)

lemma aufs_mknod_nomem:
  assumes "held s = {}" and "\<not> mem_ok s (next_addr s)" and "dentries s p = Some d" "d_inode d = 0"
    and "inodes s dir = Some i" "supers s (i_sb i) = Some b"
  shows "aufs_mknod dir p mode dev s = Some (- EPERM, s\<lparr>next_addr := next_addr s + 1\<rparr>)"
  using assms aufs_get_inode_fail [OF assms(1,2,6)] by (simp add: aufs_mknod_def)

section \<open>Creating by name\<close>

lemma by_name_mode_ok: "creatable mode \<Longrightarrow> file_or_dir (by_name_mode mode)"
  by (auto simp: creatable_def file_or_dir_def by_name_mode_def bit.conj_disj_distrib2)

lemma create_by_name_ok:
  assumes wf: "dcache_wf s" and h: "held s = {}" and q: "dentries s r = Some q" "0 < d_count q"
    and nm: "plain_name nm" "length nm \<le> 255" and none: "\<And>c. \<not> child_of s r nm c"
    and i: "inodes s (d_inode q) = Some i" "i_op i = Simple_dir_inode_operations" "supers s (i_sb i) = Some b"
    and perm: "permission (d_inode q) MAY_EXEC s = Some 0" and mem: "d_alloc_mem (mk_qstr nm) s"
      "mem_ok s (next_addr s + name_blocks (mk_qstr nm))" and mode: "creatable mode" and slot: "\<not> IS_ERR slot"
  shows "aufs_create_by_name nm mode r slot dd s = Some ((0, next_addr s), with_entry r q i b nm mode s)"
    "dcache_wf (with_entry r q i b nm mode s)"
proof -
  let ?q = "mk_qstr nm" and ?p = "next_addr s"
  define u where "u = with_neg r q ?q s"
  define d where "d = neg_child r (d_sb q) ?q s"
  define v where "v = with_node ?p d (i_sb i) b (by_name_mode mode) u"
  have none': "\<And>c. \<not> child_of s r (q_name ?q) c" using none by simp
  have wu: "dcache_wf u" unfolding u_def by (rule with_neg_wf [OF wf h q(1) _ none']) simp
  have lk: "lookup_one_len i_op_lookup nm r (length nm) s = Some (?p, u)"
    unfolding lookup_one_len_plain [OF nm(1)] u_def
    by (rule lookup_hash_miss [OF wf h q _ _ none' i(1,2) perm mem(1)]) (use nm in simp_all)
  have rp: "r \<noteq> ?p" "0 < r" using dentry_okD(1,2) [OF dcache_wfD(4) [OF wf q(1)]] by auto
  have ur: "dentries u r = Some (q\<lparr>d_count := d_count q + 1, d_subdirs := ?p # d_subdirs q\<rparr>)" using rp by (simp add: u_def)
  have pre: "held u = {}" "mem_ok u (next_addr u)" "dentries u ?p = Some d" "d_inode d = 0" "0 < d_count d"
    "inodes u (d_inode q) = Some i" "supers u (i_sb i) = Some b"
    using h mem(2) i by (simp_all add: u_def d_def)
  have k: "aufs_mknod (d_inode q) ?p (by_name_mode mode) 0 u = Some (0, v)" "dcache_wf v"
    unfolding v_def using aufs_mknod_ok [OF wu pre by_name_mode_ok [OF mode]] by blast+
  have iv: "inodes v (d_inode q) = Some i" 
    using i(1) icache_wf_fresh(1) [OF dcache_wfD(1) [OF wu]] by (auto simp: v_def with_node_def with_inode_def u_def)
  have e: "with_entry r q i b nm mode s = (if mode AND S_IFMT = S_IFDIR then v\<lparr>inodes := (inodes v)(d_inode q \<mapsto> i\<lparr>i_nlink := i_nlink i + 1\<rparr>)\<rparr> else v)"
    by (simp add: with_entry_def v_def u_def d_def Let_def)
  show "aufs_create_by_name nm mode r slot dd s = Some ((0, ?p), with_entry r q i b nm mode s)"
    using rp lk slot ur k(1) iv unfolding e
    by (cases "mode AND S_IFMT = S_IFDIR") (simp_all add: aufs_create_by_name_def aufs_mkdir_def aufs_create_def by_name_mode_def upd_inode_eq del: upd_inode_Some)
  have "quiet i" by (rule inode_live [OF dcache_wfD(1) [OF wf] i(1)])
  then show "dcache_wf (with_entry r q i b nm mode s)"
    unfolding e using k(2) dcache_wf_upd_inode [OF k(2) iv, of "i\<lparr>i_nlink := i_nlink i + 1\<rparr>"] by (simp add: quiet_def)
qed

lemma with_entry_simps:
  assumes "inodes s (d_inode q) = Some i" and "d_inode q \<noteq> next_addr s + name_blocks (mk_qstr nm)"
  shows "held (with_entry r q i b nm mode s) = held s"
    "next_addr (with_entry r q i b nm mode s) = next_addr s + name_blocks (mk_qstr nm) + 1"
    "mem_ok (with_entry r q i b nm mode s) = mem_ok s"
    "cur_caps (with_entry r q i b nm mode s) = cur_caps s"
    "supers (with_entry r q i b nm mode s) =
       (supers s)(i_sb i \<mapsto> b\<lparr>s_inodes := (next_addr s + name_blocks (mk_qstr nm)) # s_inodes b\<rparr>)"
    "dentries (with_entry r q i b nm mode s) =
       (dentries s)(r \<mapsto> q\<lparr>d_count := d_count q + 1, d_subdirs := next_addr s # d_subdirs q\<rparr>,
         next_addr s \<mapsto> entry_dentry r q nm s)"
    "inodes (with_entry r q i b nm mode s) =
       (inodes s)(d_inode q \<mapsto> (if mode AND S_IFMT = S_IFDIR then i\<lparr>i_nlink := i_nlink i + 1\<rparr> else i),
         next_addr s + name_blocks (mk_qstr nm) \<mapsto> entry_inode i b nm mode 0 None s)"
  using assms
  by (auto simp: with_entry_def with_node_def with_inode_def Let_def entry_dentry_def entry_inode_def fun_upd_idem fun_upd_twist)
     (auto simp: aufs_inode_def with_neg_def fresh_inode_def Let_def)

lemma entry_dentry_simps [simp]:
  "d_count (entry_dentry r q nm s) = 2" "d_inode (entry_dentry r q nm s) = next_addr s + name_blocks (mk_qstr nm)"
  "d_parent (entry_dentry r q nm s) = r" "d_subdirs (entry_dentry r q nm s) = []" "nm_of (entry_dentry r q nm s) = nm"
  "\<not> d_unhashed (entry_dentry r q nm s)" "d_sb (entry_dentry r q nm s) = d_sb q"
  using neg_child_simps(5) [of r "d_sb q" "mk_qstr nm" s]
  by (simp_all add: entry_dentry_def)

lemma entry_inode_simps [simp]:
  "i_sb (entry_inode i b nm mode data fops s) = i_sb i" "quiet (entry_inode i b nm mode data fops s)"
  "i_count (entry_inode i b nm mode data fops s) = 1" "\<not> i_hashed (entry_inode i b nm mode data fops s)"
  "i_dentry (entry_inode i b nm mode data fops s) = [next_addr s]"
  "i_mode (entry_inode i b nm mode data fops s) = ucast (by_name_mode mode)"
  by (simp_all add: entry_inode_def Let_def split: option.splits) (auto simp: quiet_def aufs_inode_def fresh_inode_def Let_def)

lemma aufs_create_file_ok:
  assumes wf: "dcache_wf s" and h: "held s = {}" and q: "dentries s r = Some q" "0 < d_count q"
    and nm: "plain_name nm" "length nm \<le> 255" and none: "\<And>c. \<not> child_of s r nm c"
    and i: "inodes s (d_inode q) = Some i" "i_op i = Simple_dir_inode_operations" "supers s (i_sb i) = Some b"
    and perm: "permission (d_inode q) MAY_EXEC s = Some 0" and mem: "d_alloc_mem (mk_qstr nm) s"
      "mem_ok s (next_addr s + name_blocks (mk_qstr nm))" and mode: "creatable mode"
  shows "\<exists>s'. aufs_create_file nm mode r data fops s = Some (next_addr s, s') \<and> dcache_wf s' \<and> aufs_frame s s' \<and>
    created r nm mode data fops s s'"
proof -
  let ?p = "next_addr s" and ?n = "next_addr s + name_blocks (mk_qstr nm)"
  have slot: "\<not> IS_ERR dentry_slot" by (simp add: dentry_slot_def IS_ERR_def)
  note c = create_by_name_ok [OF wf h q nm none i perm mem mode slot]
  define u where "u = with_entry r q i b nm mode s"
  have "d_inode q < ?p" by (rule inode_live [OF dcache_wfD(1) [OF wf] i(1)])
  moreover have nb: "0 < name_blocks (mk_qstr nm)" by (simp add: name_blocks_def)
  ultimately have ne: "d_inode q \<noteq> ?n" by simp
  note e = with_entry_simps [OF i(1) ne, of r b mode, folded u_def]
  have up: "dentries u ?p = Some (entry_dentry r q nm s)" by (simp add: e)
  have un: "inodes u ?n = Some (entry_inode i b nm mode 0 None s)" by (simp add: e)
  have n0: "0 < ?n" using nb icache_wfD(1) [OF dcache_wfD(1) [OF wf]] by simp
  define v where "v = u\<lparr>inodes := (inodes u)(?n \<mapsto> entry_inode i b nm mode data fops s)\<rparr>"
  have "aufs_create_file nm mode r data fops s = Some (?p, v)"
    using c(1) up un n0 unfolding u_def [symmetric]
    by (cases fops) (simp_all add: aufs_create_file_def upd_inode_eq v_def entry_inode_def Let_def fun_upd_idem del: upd_inode_Some)
  moreover have "dcache_wf v" unfolding v_def
    by (rule dcache_wf_upd_inode [OF c(2) [folded u_def] un]) simp_all
  moreover have "aufs_frame s v"
    by (auto simp: aufs_frame_def v_def u_def with_entry_def with_node_def with_inode_def with_neg_def Let_def)
  moreover have "created r nm mode data fops s v"
    unfolding created_def using q i e by (simp add: v_def)
  ultimately show ?thesis by blast
qed

lemma created_child:
  assumes wf: "dcache_wf s" and c: "created r nm mode data fops s s'"
  shows "child_of s' k str x \<longleftrightarrow> child_of s k str x \<or> k = r \<and> str = nm \<and> x = next_addr s"
proof -
  obtain q where q: "dentries s r = Some q" "dentries s' = (dentries s)(r \<mapsto> q\<lparr>d_count := d_count q + 1, d_subdirs := next_addr s # d_subdirs q\<rparr>,
    next_addr s \<mapsto> entry_dentry r q nm s)" using c by (auto simp: created_def)
  have u: "d_unhashed (q\<lparr>d_count := d_count q + 1, d_subdirs := next_addr s # d_subdirs q\<rparr>) = d_unhashed q" by (simp add: d_unhashed_def)
  show ?thesis
  proof (cases "x = next_addr s")
    case True
    then show ?thesis using dcache_wf_fresh [OF wf] q by (auto simp: child_of_def)
  next
    case False
    then show ?thesis using q u by (cases "x = r") (auto simp: child_of_def)
  qed
qed

lemma ucast_format: 
  assumes "k AND 0xF000 = (k :: 32 word)"
  shows "(ucast (m :: 32 word) :: 16 word) AND 0xF000 = ucast k \<longleftrightarrow> m AND 0xF000 = k"
proof -
  have *: "ucast (m AND 0xF000) = (ucast (m :: 32 word) :: 16 word) AND 0xF000" for m
    by (simp add: unsigned_and_eq)
  have low: "n < 16" if "bit (0xF000 :: 32 word) n" for n
    using that bit_take_bit_iff [of 16 "0xF000 :: 32 word" n] by simp
  have "ucast (ucast (m AND 0xF000) :: 16 word) = m AND 0xF000" for m :: "32 word"
    using low by (intro bit_word_eqI) (auto simp: bit_simps)
  then show ?thesis using * assms by metis
qed

lemma format_cases [simp]:
  "S_ISDIR (ucast (m :: 32 word) :: 16 word) \<longleftrightarrow> S_ISDIR m" "S_ISREG (ucast (m :: 32 word) :: 16 word) \<longleftrightarrow> S_ISREG m"
  "S_ISCHR (ucast (m :: 32 word) :: 16 word) \<longleftrightarrow> S_ISCHR m" "S_ISBLK (ucast (m :: 32 word) :: 16 word) \<longleftrightarrow> S_ISBLK m"
  "S_ISFIFO (ucast (m :: 32 word) :: 16 word) \<longleftrightarrow> S_ISFIFO m" "S_ISSOCK (ucast (m :: 32 word) :: 16 word) \<longleftrightarrow> S_ISSOCK m"
  using ucast_format [of S_IFDIR m] ucast_format [of S_IFREG m] ucast_format [of S_IFCHR m] ucast_format [of S_IFBLK m]
    ucast_format [of S_IFIFO m] ucast_format [of S_IFSOCK m]
  by (simp_all add: S_ISDIR_def S_ISREG_def S_ISCHR_def S_ISBLK_def S_ISFIFO_def S_ISSOCK_def)

lemma aufs_get_inode_kinds:
  assumes wf: "icache_wf s" and h: "held s = {}" and m: "mem_ok s (next_addr s)" and b: "supers s sb = Some b"
  shows "\<exists>s' i. aufs_get_inode sb mode dev s = Some (next_addr s, s') \<and> icache_wf s' \<and> inodes s' = (inodes s)(next_addr s \<mapsto> i) \<and>
    i_sb i = sb \<and> i_count i = 1 \<and> i_mode i = ucast mode \<and> i_nlink i = (if S_ISDIR (i_mode i) then 2 else 1) \<and>
    i_op i = (if S_ISDIR (i_mode i) then Simple_dir_inode_operations else Empty_iops) \<and>
    i_fop i = (if S_ISDIR (i_mode i) then Simple_dir_operations else if S_ISCHR (i_mode i) then Def_chr_fops
      else if S_ISBLK (i_mode i) then Def_blk_fops else if S_ISFIFO (i_mode i) then Def_fifo_fops
      else if S_ISSOCK (i_mode i) then Bad_sock_fops else Empty_fops) \<and>
    i_rdev i = (if S_ISCHR (i_mode i) \<or> S_ISBLK (i_mode i) then dev else 0)"
proof -
  let ?k = "\<lambda>j. i_sb j = sb \<and> i_count j = 1 \<and> i_mode j = ucast mode \<and> i_nlink j = (if S_ISDIR (i_mode j) then 2 else 1) \<and>
    i_op j = (if S_ISDIR (i_mode j) then Simple_dir_inode_operations else Empty_iops) \<and>
    i_fop j = (if S_ISDIR (i_mode j) then Simple_dir_operations else if S_ISCHR (i_mode j) then Def_chr_fops
      else if S_ISBLK (i_mode j) then Def_blk_fops else if S_ISFIFO (i_mode j) then Def_fifo_fops
      else if S_ISSOCK (i_mode j) then Bad_sock_fops else Empty_fops) \<and>
    i_rdev j = (if S_ISCHR (i_mode j) \<or> S_ISBLK (i_mode j) then dev else 0)"
  have n: "0 < next_addr s" by (rule icache_wfD(1) [OF wf])
  have ni: "new_inode sb s = Some (next_addr s, with_inode sb b (fresh_inode sb b s) s)"
    unfolding with_inode_def by (rule new_inode_ok [OF h m _ b]) (use n in simp)
  define i where "i = (fresh_inode sb b s)\<lparr>i_mode := ucast mode, i_uid := cur_fsuid s, i_gid := cur_fsgid s, i_blocks := 0,
     i_mtime := i_ctime (fresh_inode sb b s), i_atime := i_ctime (fresh_inode sb b s)\<rparr>"
  have i: "i_sb i = sb" "quiet i" "i_count i = 1" "\<not> i_hashed i" "i_mode i = ucast mode" "i_nlink i = 1" "i_op i = Empty_iops"
    "i_fop i = Empty_fops" "i_rdev i = 0"
    by (simp_all add: i_def fresh_inode_def quiet_def)
  have up: "upd_inode (next_addr s) f (with_inode sb b j s) = Some (with_inode sb b (f j) s)" for f j
    by (simp add: upd_inode_eq with_inode_def del: upd_inode_Some)
  have ids: "cur_fsuid (with_inode sb b j s) = cur_fsuid s" "cur_fsgid (with_inode sb b j s) = cur_fsgid s" for j
    by (simp_all add: with_inode_def)
  define j where "j = (if S_ISREG mode then i
      else if S_ISDIR mode then i\<lparr>i_op := Simple_dir_inode_operations, i_fop := Simple_dir_operations, i_nlink := i_nlink i + 1\<rparr>
      else if S_ISCHR mode then i\<lparr>i_mode := ucast mode, i_fop := Def_chr_fops, i_rdev := dev\<rparr>
      else if S_ISBLK mode then i\<lparr>i_mode := ucast mode, i_fop := Def_blk_fops, i_rdev := dev\<rparr>
      else if S_ISFIFO mode then i\<lparr>i_mode := ucast mode, i_fop := Def_fifo_fops\<rparr>
      else if S_ISSOCK mode then i\<lparr>i_mode := ucast mode, i_fop := Bad_sock_fops\<rparr> else i\<lparr>i_mode := ucast mode\<rparr>)"
  have "aufs_get_inode sb mode dev s = Some (next_addr s, with_inode sb b j s)"
    using n by (simp add: aufs_get_inode_def ni up ids j_def i_def S_ISREG_def [symmetric] S_ISDIR_def [symmetric]
        init_special_inode_def Let_def del: upd_inode_Some S_IFMT_def S_IFREG_def S_IFDIR_def)
  moreover have "S_ISREG mode \<Longrightarrow> \<not> S_ISDIR mode" "S_ISREG mode \<Longrightarrow> \<not> S_ISCHR mode" "S_ISREG mode \<Longrightarrow> \<not> S_ISBLK mode"
    "S_ISREG mode \<Longrightarrow> \<not> S_ISFIFO mode" "S_ISREG mode \<Longrightarrow> \<not> S_ISSOCK mode" "S_ISDIR mode \<Longrightarrow> \<not> S_ISCHR mode" "S_ISDIR mode \<Longrightarrow> \<not> S_ISBLK mode"
    by (simp_all add: S_ISREG_def S_ISDIR_def S_ISCHR_def S_ISBLK_def S_ISFIFO_def S_ISSOCK_def)
  then have "?k j" using i by (simp add: j_def)
  moreover have "quiet j" "\<not> i_hashed j" using i by (simp_all add: j_def quiet_def)
  ultimately have j: "aufs_get_inode sb mode dev s = Some (next_addr s, with_inode sb b j s)" "quiet j" "\<not> i_hashed j" "?k j" by simp_all
  have "icache_wf (with_inode sb b j s)" by (rule with_inode_icache [OF wf b]) (use j in simp_all)
  moreover have "inodes (with_inode sb b j s) = (inodes s)(next_addr s \<mapsto> j)" by (simp add: with_inode_def)
  ultimately show ?thesis using j(1,4) by blast
qed

end
