(* ===== verification/Dcache_Tree.thy ===== *)
theory Dcache_Tree
  imports Dcache_Ops
begin

text \<open>
  The tree the dentries of a cache form, and the three walks of \<^verbatim>\<open>fs/dcache.c\<close> over it. \<^verbatim>\<open>is_subdir\<close> goes up,
  \<^verbatim>\<open>have_submounts\<close> and \<^verbatim>\<open>d_genocide\<close> go down and come back by the links of the children. Each is shown to end on
  every cache without cycles and to compute what its comment says: the ancestor relation, whether something is
  mounted below, and one reference less for everything that is in use below. Nothing here models code.
\<close>

text \<open>
  One step up, and a numbering of the dentries that falls on the way up: with one there is no cycle. Dentries are
  allocated after their parents, so that their addresses are such a numbering until something is moved.
\<close>

definition parent_step :: "'a dcache_scheme \<Rightarrow> ptr \<Rightarrow> ptr \<Rightarrow> bool" where
  "parent_step s p q \<longleftrightarrow> (\<exists>d. dentries s p = Some d \<and> d_parent d = q \<and> q \<noteq> p)"

definition ranked :: "'a dcache_scheme \<Rightarrow> (ptr \<Rightarrow> nat) \<Rightarrow> bool" where
  "ranked s rk \<longleftrightarrow> (\<forall>p q. parent_step s p q \<longrightarrow> rk q < rk p)"

text \<open>
  The part of the cache below a dentry as a tree. The three walks of the code carry a pointer to a child and come
  back up through the links of the children; the lemmas show that they visit the tree in its order.
\<close>

datatype dtree = DNode ptr "dtree list"

fun root_of :: "dtree \<Rightarrow> ptr" where
  "root_of (DNode p ts) = p"

fun is_tree :: "'a dcache_scheme \<Rightarrow> dtree \<Rightarrow> bool" where
  "is_tree s (DNode p ts) \<longleftrightarrow> (\<exists>d. dentries s p = Some d \<and> d_subdirs d = map root_of ts) \<and> (\<forall>t\<in>set ts. is_tree s t)"

fun nodes_of :: "dtree \<Rightarrow> ptr set" where
  "nodes_of (DNode p ts) = insert p (\<Union>t\<in>set ts. nodes_of t)"

text \<open>The search for a mount point.\<close>

definition mounted_at :: "'a dcache_scheme \<Rightarrow> ptr \<Rightarrow> bool" where
  "mounted_at s x \<longleftrightarrow> (\<exists>d. dentries s x = Some d \<and> d_mountpoint d)"

text \<open>
  Dropping references. \<open>dec_by g s\<close> is \<open>s\<close> with \<open>g x\<close> references to each dentry \<open>x\<close> less; \<open>genocide_hits\<close> counts how often
  the walk of \<^verbatim>\<open>d_genocide\<close> passes a dentry of a tree: it does not enter what is negative or unhashed.
\<close>

definition dec_by :: "(ptr \<Rightarrow> int) \<Rightarrow> 'a dcache_scheme \<Rightarrow> 'a dcache_scheme" where
  "dec_by g s = s\<lparr>dentries := (\<lambda>x. map_option (\<lambda>d. d\<lparr>d_count := d_count d - g x\<rparr>) (dentries s x))\<rparr>"

definition entered :: "'a dcache_scheme \<Rightarrow> ptr \<Rightarrow> bool" where
  "entered s x \<longleftrightarrow> (\<exists>d. dentries s x = Some d \<and> \<not> d_unhashed d \<and> d_inode d \<noteq> 0)"

fun genocide_hits :: "'a dcache_scheme \<Rightarrow> dtree \<Rightarrow> ptr \<Rightarrow> int" where
  "genocide_hits s (DNode c ts) x =
     (if entered s c then of_bool (x = c) + sum_list (map (\<lambda>t. genocide_hits s t x) ts) else 0)"

text \<open>Every dentry the walk enters is passed once.\<close>

definition live_step :: "'a dcache_scheme \<Rightarrow> ptr \<Rightarrow> ptr \<Rightarrow> bool" where
  "live_step s x y \<longleftrightarrow> parent_step s x y \<and> entered s x"

section \<open>Ancestors\<close>

lemma is_subdir_loop_ancestor:
  assumes wf: "dcache_wf s" and rk: "ranked s rk"
  shows "dentries s a = Some d \<Longrightarrow> is_subdir_loop a b s = Some ((parent_step s)\<^sup>*\<^sup>* a b)"
proof (induction "rk a" arbitrary: a d rule: less_induct)
  case less
  show ?case
  proof (cases "a = b \<or> d_parent d = a")
    case True
    have "\<not> (parent_step s)\<^sup>*\<^sup>* a b" if "a \<noteq> b" "d_parent d = a"
      using that less.prems by (auto simp: parent_step_def elim: converse_rtranclpE)
    then show ?thesis using True less.prems by (subst is_subdir_loop.simps) auto
  next
    case False
    then have st: "parent_step s a (d_parent d)" using less.prems by (auto simp: parent_step_def)
    obtain q where "dentries s (d_parent d) = Some q" using dentry_okD(3) [OF dcache_wfD(4) [OF wf less.prems]] by blast
    moreover have "rk (d_parent d) < rk a" using rk st by (simp add: ranked_def)
    ultimately have "is_subdir_loop (d_parent d) b s = Some ((parent_step s)\<^sup>*\<^sup>* (d_parent d) b)" using less.hyps by blast
    moreover have "(parent_step s)\<^sup>*\<^sup>* a b \<longleftrightarrow> (parent_step s)\<^sup>*\<^sup>* (d_parent d) b"
      using False st less.prems by (auto simp: parent_step_def elim: converse_rtranclpE intro: converse_rtranclp_into_rtranclp)
    ultimately show ?thesis using False less.prems by (subst is_subdir_loop.simps) simp
  qed
qed

lemma is_subdir_ancestor:
  assumes "dcache_wf s" and "ranked s rk" and "dentries s a = Some d"
  shows "is_subdir a b s = Some ((parent_step s)\<^sup>*\<^sup>* a b)"
  using is_subdir_loop_ancestor [OF assms] dcache_wfD(2) [OF assms(1)] by (simp add: is_subdir_def read_seqbegin_def)

section \<open>Walks over a subtree\<close>

lemma after_split: "distinct (xs @ c # ys) \<Longrightarrow> after c (xs @ c # ys) = ys"
proof -
  assume "distinct (xs @ c # ys)"
  then have "dropWhile (\<lambda>x. x \<noteq> c) (xs @ c # ys) = c # ys" by (subst dropWhile_append2) auto
  then show ?thesis by (simp add: after_def)
qed

lemma child_parent:
  assumes "dcache_wf s" and "dentries s p = Some d" and "c \<in> set (d_subdirs d)"
  shows "\<exists>e. dentries s c = Some e \<and> d_parent e = p" "parent_step s c p"
  using dentry_okD(6) [OF dcache_wfD(4) [OF assms(1,2)] assms(3)] by (auto simp: parent_step_def)

text \<open>Every dentry of a cache without cycles is the root of a tree.\<close>

lemma tree_exists:
  assumes wf: "dcache_wf s" and rk: "ranked s rk"
  shows "dentries s p = Some d \<Longrightarrow> \<exists>t. is_tree s t \<and> root_of t = p"
proof -
  obtain b where b: "\<And>p. p \<in> dom (dentries s) \<Longrightarrow> rk p \<le> b"
  proof
    show "p \<in> dom (dentries s) \<Longrightarrow> rk p \<le> Max (rk ` dom (dentries s))" for p
      by (rule Max_ge) (use dcache_wfD(3) [OF wf] in auto)
  qed
  show "dentries s p = Some d \<Longrightarrow> \<exists>t. is_tree s t \<and> root_of t = p"
  proof (induction "b - rk p" arbitrary: p d rule: less_induct)
    case less
    have "\<exists>t. is_tree s t \<and> root_of t = c" if c: "c \<in> set (d_subdirs d)" for c
    proof -
      obtain e where e: "dentries s c = Some e" "parent_step s c p" using child_parent [OF wf less.prems c] by blast
      have "rk p < rk c" using rk e(2) by (simp add: ranked_def)
      moreover have "rk c \<le> b" using b e(1) by blast
      ultimately show ?thesis using less.hyps [OF _ e(1)] by simp
    qed
    then have "\<exists>f. \<forall>c\<in>set (d_subdirs d). is_tree s (f c) \<and> root_of (f c) = c" by (intro bchoice) blast
    then obtain f where f: "\<And>c. c \<in> set (d_subdirs d) \<Longrightarrow> is_tree s (f c)" "\<And>c. c \<in> set (d_subdirs d) \<Longrightarrow> root_of (f c) = c" by blast
    have "map root_of (map f (d_subdirs d)) = d_subdirs d" unfolding map_map by (rule map_idI) (simp add: f(2))
    then have "is_tree s (DNode p (map f (d_subdirs d)))" using less.prems f(1) by simp
    then show ?case by (intro exI [of _ "DNode p (map f (d_subdirs d))"]) simp
  qed
qed

text \<open>The nodes of the tree are what reaches its root.\<close>

lemma nodes_reach:
  assumes wf: "dcache_wf s"
  shows "is_tree s t \<Longrightarrow> x \<in> nodes_of t \<longleftrightarrow> (parent_step s)\<^sup>*\<^sup>* x (root_of t)"
proof (induction t arbitrary: x)
  case (DNode p ts)
  obtain d where d: "dentries s p = Some d" "d_subdirs d = map root_of ts" using DNode.prems by auto
  have step: "parent_step s c p \<longleftrightarrow> c \<in> root_of ` set ts" for c
  proof
    assume "parent_step s c p"
    then obtain e where "dentries s c = Some e" "d_parent e = p" "p \<noteq> c" by (auto simp: parent_step_def)
    then have "c \<in> set (d_subdirs d)" using dentry_okD(3) [OF dcache_wfD(4) [OF wf]] d(1) by fastforce
    then show "c \<in> root_of ` set ts" using d(2) by simp
  next
    assume "c \<in> root_of ` set ts"
    then show "parent_step s c p" using child_parent(2) [OF wf d(1)] d(2) by simp
  qed
  have ih: "x \<in> nodes_of t \<longleftrightarrow> (parent_step s)\<^sup>*\<^sup>* x (root_of t)" if "t \<in> set ts" for t
    using DNode.IH [OF that] DNode.prems that by simp
  have "(parent_step s)\<^sup>*\<^sup>* x p \<longleftrightarrow> x = p \<or> (\<exists>t\<in>set ts. (parent_step s)\<^sup>*\<^sup>* x (root_of t))"
  proof -
    have "(parent_step s)\<^sup>*\<^sup>* x p \<longleftrightarrow> x = p \<or> (\<exists>c. (parent_step s)\<^sup>*\<^sup>* x c \<and> parent_step s c p)"
      by (rule iffI) (auto elim: rtranclp.cases intro: rtranclp.rtrancl_into_rtrancl)
    then show ?thesis using step by auto
  qed
  then show ?case using ih by auto
qed

lemma walk_forest:
  assumes "\<And>t us ws. ts = ws @ t # us \<Longrightarrow> W (root_of t # map root_of us) = (if P t then x else W (map root_of us))"
  shows "ts = ws @ us \<Longrightarrow> W (map root_of us) = (if \<exists>t\<in>set us. P t then x else W [])"
proof (induction us arbitrary: ws)
  case (Cons u us)
  then have "ts = (ws @ [u]) @ us" by simp
  from Cons.IH [OF this] assms [OF Cons.prems] show ?case by auto
qed simp

lemma have_submounts_tree:
  assumes wf: "dcache_wf s" and rk: "ranked s rk"
  shows "is_tree s t \<Longrightarrow> dentries s p = Some q \<Longrightarrow> d_subdirs q = xs @ root_of t # nx \<Longrightarrow> rk par \<le> rk p \<Longrightarrow>
    have_submounts_resume par p (root_of t # nx) s =
      (if \<exists>x\<in>nodes_of t. mounted_at s x then Some True else have_submounts_resume par p nx s)"
proof (induction t arbitrary: p q xs nx)
  case (DNode c ts)
  obtain d where d: "dentries s c = Some d" "d_subdirs d = map root_of ts" and ts: "\<And>t. t \<in> set ts \<Longrightarrow> is_tree s t" using DNode.prems(1) by auto
  have cq: "c \<in> set (d_subdirs q)" using DNode.prems(3) by simp
  have pc: "d_parent d = p" "rk p < rk c"
    using child_parent [OF wf DNode.prems(2) cq] d(1) rk by (auto simp: ranked_def)
  have dq: "after c (d_subdirs q) = nx"
    using after_split dentry_okD(4) [OF dcache_wfD(4) [OF wf DNode.prems(2)]] DNode.prems(3) by simp
  have kids: "have_submounts_resume par c (map root_of ts) s =
      (if \<exists>t\<in>set ts. \<exists>x\<in>nodes_of t. mounted_at s x then Some True else have_submounts_resume par c [] s)"
  proof (rule walk_forest [where W = "\<lambda>ps. have_submounts_resume par c ps s" and ts = ts and ws = "[]"])
    fix t us ws
    assume "ts = ws @ t # us"
    then show "have_submounts_resume par c (root_of t # map root_of us) s =
      (if \<exists>x\<in>nodes_of t. mounted_at s x then Some True else have_submounts_resume par c (map root_of us) s)"
      by (intro DNode.IH [of _ c d "map root_of ws"]) (use ts d pc(2) DNode.prems(4) in auto)
  qed simp
  have up: "have_submounts_resume par c [] s = have_submounts_resume par p nx s"
    by (subst have_submounts_resume.simps) (use pc DNode.prems(2,4) d dq in \<open>auto simp: d_child_next_def\<close>)
  show ?case
    by (subst have_submounts_resume.simps) (use d kids up in \<open>auto simp: mounted_at_def\<close>)
qed

lemma dtree_frames [simp]:
  "parent_step (held_update f s) = parent_step s" "ranked (held_update f s) = ranked s"
  "is_tree (held_update f s) = is_tree s" "mounted_at (held_update f s) = mounted_at s"
proof -
  show *: "parent_step (held_update f s) = parent_step s" by (intro ext) (simp add: parent_step_def)
  then show "ranked (held_update f s) = ranked s" by (intro ext) (simp add: ranked_def)
  show "is_tree (held_update f s) = is_tree s"
  proof
    show "is_tree (held_update f s) t = is_tree s t" for t by (induction t) simp
  qed
  show "mounted_at (held_update f s) = mounted_at s" by (intro ext) (simp add: mounted_at_def)
qed

lemma have_submounts_ok:
  assumes wf: "dcache_wf s" and h: "held s = {}" and rk: "ranked s rk" and p: "dentries s p = Some d"
  shows "have_submounts p s = Some (\<exists>x. (parent_step s)\<^sup>*\<^sup>* x p \<and> mounted_at s x, s)"
proof -
  define u where "u = held_update (insert Dcache_lock) s"
  have u: "dcache_wf u" "ranked u rk" "dentries u p = Some d" "parent_step u = parent_step s" "mounted_at u = mounted_at s"
    using wf rk p by (simp_all add: u_def)
  obtain t where t: "is_tree u t" "root_of t = p" using tree_exists [OF u(1-3)] by blast
  then obtain ts where ts: "t = DNode p ts" by (cases t) auto
  have d: "d_subdirs d = map root_of ts" and kids: "\<And>t. t \<in> set ts \<Longrightarrow> is_tree u t" using t u(3) ts by auto
  have "have_submounts_resume p p (map root_of ts) u =
      (if \<exists>t\<in>set ts. \<exists>x\<in>nodes_of t. mounted_at s x then Some True else have_submounts_resume p p [] u)"
  proof (rule walk_forest [where W = "\<lambda>ps. have_submounts_resume p p ps u" and ts = ts and ws = "[]"])
    fix t us ws
    assume "ts = ws @ t # us"
    then show "have_submounts_resume p p (root_of t # map root_of us) u =
      (if \<exists>x\<in>nodes_of t. mounted_at s x then Some True else have_submounts_resume p p (map root_of us) u)"
      unfolding u(5) [symmetric] by (intro have_submounts_tree [OF u(1,2), of _ p d "map root_of ws"]) (use kids d u(3) in auto)
  qed simp
  moreover have "have_submounts_resume p p [] u = Some False" by (subst have_submounts_resume.simps) simp
  moreover have "(\<exists>x\<in>nodes_of t. mounted_at s x) \<longleftrightarrow> (\<exists>x. (parent_step s)\<^sup>*\<^sup>* x p \<and> mounted_at s x)"
    using nodes_reach [OF u(1) t(1)] t(2) u(4) by auto
  moreover have "mounted_at s p \<longleftrightarrow> d_mountpoint d" using p by (simp add: mounted_at_def)
  ultimately show ?thesis
    using h p d ts unfolding have_submounts_def u_def by (auto simp: lock_simps)
qed

lemma dec_by_at: "dentries (dec_by g s) x = map_option (\<lambda>d. d\<lparr>d_count := d_count d - g x\<rparr>) (dentries s x)"
  by (simp add: dec_by_def)

lemma atomic_dec_by:
  assumes "dentries s c = Some d"
  shows "atomic_dec_count c (dec_by g s) = Some (dec_by (g(c := g c + 1)) s)"
proof -
  have "(dentries (dec_by g s))(c \<mapsto> d\<lparr>d_count := d_count d - g c - 1\<rparr>) = dentries (dec_by (g(c := g c + 1)) s)"
    using assms by (auto simp: dec_by_def)
  then show ?thesis using assms
    by (simp add: atomic_dec_count_def dec_by_at upd_dentry_eq del: upd_dentry_Some) (simp add: dec_by_def)
qed

lemma d_child_next_dec: "d_child_next c (dec_by g s) = d_child_next c s"
  by (cases "dentries s c"; cases "dentries s (d_parent (the (dentries s c)))") (simp_all add: d_child_next_def dec_by_at)

lemma d_genocide_forest:
  assumes "\<And>t us ws g. ts = ws @ t # us \<Longrightarrow> W (root_of t # map root_of us) (dec_by g s) = W (map root_of us) (dec_by (\<lambda>x. g x + h t x) s)"
  shows "ts = ws @ us \<Longrightarrow> W (map root_of us) (dec_by g s) = W [] (dec_by (\<lambda>x. g x + sum_list (map (\<lambda>t. h t x) us)) s)"
proof (induction us arbitrary: ws g)
  case (Cons u us)
  then have "ts = (ws @ [u]) @ us" by simp
  from Cons.IH [OF this] assms [OF Cons.prems] show ?case by (simp add: add.assoc)
qed simp

lemma d_genocide_tree:
  assumes wf: "dcache_wf s" and rk: "ranked s rk"
  shows "is_tree s t \<Longrightarrow> dentries s p = Some q \<Longrightarrow> d_subdirs q = xs @ root_of t # nx \<Longrightarrow> rk root \<le> rk p \<Longrightarrow>
    d_genocide_resume root p (root_of t # nx) (dec_by g s) = d_genocide_resume root p nx (dec_by (\<lambda>x. g x + genocide_hits s t x) s)"
proof (induction t arbitrary: p q xs nx g)
  case (DNode c ts)
  obtain d where d: "dentries s c = Some d" "d_subdirs d = map root_of ts" and ts: "\<And>t. t \<in> set ts \<Longrightarrow> is_tree s t" using DNode.prems(1) by auto
  have cq: "c \<in> set (d_subdirs q)" using DNode.prems(3) by simp
  have pc: "d_parent d = p" "rk p < rk c"
    using child_parent [OF wf DNode.prems(2) cq] d(1) rk by (auto simp: ranked_def)
  have dq: "after c (d_subdirs q) = nx"
    using after_split dentry_okD(4) [OF dcache_wfD(4) [OF wf DNode.prems(2)]] DNode.prems(3) by simp
  let ?e = "\<lambda>g. d\<lparr>d_count := d_count d - g c\<rparr>"
  have dc: "dentries (dec_by g s) c = Some (?e g)" for g using d(1) by (simp add: dec_by_at)
  have en: "d_unhashed (?e g) \<or> d_inode (?e g) = 0 \<longleftrightarrow> \<not> entered s c" for g using d(1) by (simp add: entered_def d_unhashed_def)
  have up: "d_genocide_resume root c [] (dec_by g s) = d_genocide_resume root p nx (dec_by (g(c := g c + 1)) s)" for g
  proof -
    have "d_child_next c (dec_by g s) = Some (p, nx)"
      unfolding d_child_next_dec using d(1) pc(1) DNode.prems(2) dq by (simp add: d_child_next_def)
    moreover have "c \<noteq> root" using pc(2) DNode.prems(4) by auto
    ultimately show ?thesis by (subst d_genocide_resume.simps) (simp add: atomic_dec_by [OF d(1)])
  qed
  have kids: "d_genocide_resume root c (map root_of ts) (dec_by g s) =
      d_genocide_resume root c [] (dec_by (\<lambda>x. g x + sum_list (map (\<lambda>t. genocide_hits s t x) ts)) s)"
  proof (rule d_genocide_forest [where W = "\<lambda>ps. d_genocide_resume root c ps" and ts = ts and ws = "[]"])
    fix t us ws g
    assume "ts = ws @ t # us"
    then show "d_genocide_resume root c (root_of t # map root_of us) (dec_by g s) =
      d_genocide_resume root c (map root_of us) (dec_by (\<lambda>x. g x + genocide_hits s t x) s)"
      by (intro DNode.IH [of _ c d "map root_of ws"]) (use ts d pc(2) DNode.prems(4) in auto)
  qed simp
  have fin: "(\<lambda>x. g x + sum_list (map (\<lambda>t. genocide_hits s t x) ts))(c := g c + sum_list (map (\<lambda>t. genocide_hits s t c) ts) + 1) =
      (\<lambda>x. g x + (of_bool (x = c) + sum_list (map (\<lambda>t. genocide_hits s t x) ts)))"
    by auto
  show ?case
  proof (cases "entered s c")
    case False
    then show ?thesis using en [of g] by (subst d_genocide_resume.simps) (simp add: dc)
  next
    case True
    then have ne: "\<not> d_unhashed (?e g)" "d_inode (?e g) \<noteq> 0" using en [of g] by auto
    show ?thesis
    proof (cases "ts = []")
      case True
      then have "d_genocide_resume root p (c # nx) (dec_by g s) = d_genocide_resume root p nx (dec_by (g(c := g c + 1)) s)"
        using ne d(2) by (subst d_genocide_resume.simps) (simp add: dc atomic_dec_by [OF d(1)])
      then show ?thesis using True \<open>entered s c\<close> fin by simp
    next
      case False
      then have "d_genocide_resume root p (c # nx) (dec_by g s) = d_genocide_resume root c (map root_of ts) (dec_by g s)"
        using ne d(2) by (subst d_genocide_resume.simps) (simp add: dc)
      then show ?thesis using True fin unfolding kids up by simp
    qed
  qed
qed

lemma sum_list_once:
  assumes "distinct (map f ts)" and "\<And>t u. t \<in> set ts \<Longrightarrow> u \<in> set ts \<Longrightarrow> P t \<Longrightarrow> P u \<Longrightarrow> f t = f u"
  shows "sum_list (map (\<lambda>t. of_bool (P t)) ts) = (of_bool (\<exists>t\<in>set ts. P t) :: int)"
  using assms
proof (induction ts)
  case (Cons t ts)
  then have ih: "sum_list (map (\<lambda>t. of_bool (P t)) ts) = (of_bool (\<exists>t\<in>set ts. P t) :: int)" by simp
  have "\<not> P u" if u: "P t" "u \<in> set ts" for u
  proof
    assume "P u"
    then have "f t = f u" using Cons.prems(2) u by simp
    then show False using Cons.prems(1) u(2) by auto
  qed
  then show ?case using ih by auto
qed simp

lemma rank_up:
  assumes rk: "ranked s rk" and r: "(parent_step s)\<^sup>*\<^sup>* x y"
  shows "rk y \<le> rk x"
  using r
proof (induction rule: rtranclp_induct)
  case (step y z)
  then have "rk z < rk y" using rk by (simp add: ranked_def)
  then show ?case using step.IH by simp
qed simp

lemma ancestors_linear:
  assumes "(parent_step s)\<^sup>*\<^sup>* x a" and "(parent_step s)\<^sup>*\<^sup>* x b"
  shows "(parent_step s)\<^sup>*\<^sup>* a b \<or> (parent_step s)\<^sup>*\<^sup>* b a"
  using assms
proof (induction rule: rtranclp_induct)
  case (step y z)
  then consider "(parent_step s)\<^sup>*\<^sup>* y b" | "(parent_step s)\<^sup>*\<^sup>* b y" by blast
  then show ?case
  proof cases
    case 1
    then show ?thesis
    proof (cases rule: converse_rtranclpE)
      case base
      then show ?thesis using step(2) by auto
    next
      case (step w)
      then have "w = z" using \<open>parent_step s y z\<close> by (auto simp: parent_step_def)
      then show ?thesis using step by simp
    qed
  next
    case 2
    then show ?thesis using step(2) by (auto intro: rtranclp.rtrancl_into_rtrancl)
  qed
qed simp

lemma siblings_apart:
  assumes rk: "ranked s rk" and a: "(parent_step s)\<^sup>*\<^sup>* x a" "parent_step s a c" and b: "(parent_step s)\<^sup>*\<^sup>* x b" "parent_step s b c"
  shows "a = b"
proof -
  have *: "v = w" if v: "(parent_step s)\<^sup>*\<^sup>* v w" "parent_step s v c" "parent_step s w c" for v w
    using v(1)
  proof (cases rule: converse_rtranclpE)
    case (step y)
    then have "y = c" using v(2) by (auto simp: parent_step_def)
    then have "rk w \<le> rk c" using rank_up [OF rk] step(2) by simp
    moreover have "rk c < rk w" using rk v(3) by (simp add: ranked_def)
    ultimately show ?thesis by simp
  qed
  show ?thesis using ancestors_linear [OF a(1) b(1)] * a(2) b(2) by blast
qed

lemma live_step_up: "(live_step s)\<^sup>*\<^sup>* x y \<Longrightarrow> (parent_step s)\<^sup>*\<^sup>* x y"
  by (rule rtranclp_mono [THEN predicate2D, rotated]) (auto simp: live_step_def)

lemma child_step:
  assumes wf: "dcache_wf s" and c: "dentries s c = Some d"
  shows "parent_step s y c \<longleftrightarrow> y \<in> set (d_subdirs d)"
proof
  assume "parent_step s y c"
  then obtain e where e: "dentries s y = Some e" "d_parent e = c" "c \<noteq> y" by (auto simp: parent_step_def)
  show "y \<in> set (d_subdirs d)" using dentry_okD(3) [OF dcache_wfD(4) [OF wf e(1)]] e(2,3) c by simp
qed (rule child_parent(2) [OF wf c])

lemma live_step_cases: "(live_step s)\<^sup>*\<^sup>* x c \<longleftrightarrow> x = c \<or> (\<exists>y. (live_step s)\<^sup>*\<^sup>* x y \<and> live_step s y c)"
  using rtranclp.simps [of "live_step s" x c] by auto

lemma live_trancl: "(live_step s)\<^sup>+\<^sup>+ x c \<longleftrightarrow> (\<exists>y. (live_step s)\<^sup>*\<^sup>* x y \<and> live_step s y c)"
proof
  assume "(live_step s)\<^sup>+\<^sup>+ x c"
  then show "\<exists>y. (live_step s)\<^sup>*\<^sup>* x y \<and> live_step s y c"
    by (cases rule: tranclp.cases) (auto intro: tranclp_into_rtranclp)
qed (auto intro: rtranclp_into_tranclp1)

text \<open>The entered subtrees below one dentry are disjoint, so a sum over them counts each dentry at most once.\<close>

lemma kid_sum:
  assumes wf: "dcache_wf s" and rk: "ranked s rk" and d: "dentries s c = Some d" "d_subdirs d = map root_of ts"
    and ih: "\<And>t. t \<in> set ts \<Longrightarrow> genocide_hits s t x = of_bool (entered s (root_of t) \<and> (live_step s)\<^sup>*\<^sup>* x (root_of t))"
  shows "sum_list (map (\<lambda>t. genocide_hits s t x) ts) = of_bool ((live_step s)\<^sup>+\<^sup>+ x c)"
proof -
  have up: "parent_step s (root_of t) c" if "t \<in> set ts" for t
    using child_step [OF wf d(1)] d(2) that by simp
  let ?P = "\<lambda>t. entered s (root_of t) \<and> (live_step s)\<^sup>*\<^sup>* x (root_of t)"
  have "sum_list (map (\<lambda>t. genocide_hits s t x) ts) = sum_list (map (\<lambda>t. of_bool (?P t)) ts)"
    by (intro arg_cong [of _ _ sum_list] map_cong refl ih)
  also have "\<dots> = of_bool (\<exists>t\<in>set ts. ?P t)"
  proof (rule sum_list_once [where f = root_of])
    show "distinct (map root_of ts)" using dentry_okD(4) [OF dcache_wfD(4) [OF wf d(1)]] d(2) by simp
    show "root_of t = root_of u" if t: "t \<in> set ts" "u \<in> set ts" "?P t" "?P u" for t u
      by (rule siblings_apart [OF rk live_step_up [of s x] up [OF t(1)] live_step_up up [OF t(2)]]) (use t(3,4) in simp_all)
  qed
  also have "(\<exists>t\<in>set ts. ?P t) \<longleftrightarrow> (live_step s)\<^sup>+\<^sup>+ x c"
    unfolding live_trancl live_step_def child_step [OF wf d(1)] d(2) by auto
  finally show ?thesis .
qed

lemma no_cycle:
  assumes rk: "ranked s rk"
  shows "\<not> (live_step s)\<^sup>+\<^sup>+ x x"
proof
  assume "(live_step s)\<^sup>+\<^sup>+ x x"
  then obtain y where y: "(live_step s)\<^sup>*\<^sup>* x y" "live_step s y x" by (auto simp: live_trancl)
  have "rk y \<le> rk x" by (rule rank_up [OF rk live_step_up [OF y(1)]])
  moreover have "rk x < rk y" using rk y(2) by (simp add: ranked_def live_step_def)
  ultimately show False by simp
qed

lemma genocide_hits_once:
  assumes wf: "dcache_wf s" and rk: "ranked s rk"
  shows "is_tree s t \<Longrightarrow> genocide_hits s t x = of_bool (entered s (root_of t) \<and> (live_step s)\<^sup>*\<^sup>* x (root_of t))"
proof (induction t)
  case (DNode c ts)
  obtain d where d: "dentries s c = Some d" "d_subdirs d = map root_of ts" and ts: "\<And>t. t \<in> set ts \<Longrightarrow> is_tree s t"
    using DNode.prems by auto
  have kids: "sum_list (map (\<lambda>t. genocide_hits s t x) ts) = of_bool ((live_step s)\<^sup>+\<^sup>+ x c)"
    by (rule kid_sum [OF wf rk d DNode.IH]) (use ts in simp_all)
  have reach: "(live_step s)\<^sup>*\<^sup>* x c \<longleftrightarrow> x = c \<or> (live_step s)\<^sup>+\<^sup>+ x c"
    unfolding live_trancl by (rule live_step_cases)
  show ?case using no_cycle [OF rk, of c] by (auto simp: kids reach)
qed

lemma dec_by_frames [simp]:
  "dec_by (\<lambda>_. 0) s = s" "held (dec_by g s) = held s" "dec_by g (held_update f s) = held_update f (dec_by g s)"
  by (simp_all add: dec_by_def option.map_ident)

lemma d_genocide_ok:
  assumes wf: "dcache_wf s" and h: "held s = {}" and rk: "ranked s rk" and p: "dentries s p = Some d"
  shows "d_genocide p s = Some (dec_by (\<lambda>x. of_bool ((live_step s)\<^sup>+\<^sup>+ x p)) s)"
proof -
  define u where "u = held_update (insert Dcache_lock) s"
  have u: "dcache_wf u" "ranked u rk" "dentries u p = Some d" "live_step u = live_step s"
    using wf rk p by (simp_all add: u_def live_step_def fun_eq_iff entered_def)
  obtain t where t: "is_tree u t" "root_of t = p" using tree_exists [OF u(1-3)] by blast
  then obtain ts where ts: "t = DNode p ts" by (cases t) auto
  have d: "d_subdirs d = map root_of ts" and kids: "\<And>t. t \<in> set ts \<Longrightarrow> is_tree u t" using t u(3) ts by auto
  have "d_genocide_resume p p (map root_of ts) (dec_by (\<lambda>_. 0) u) =
      d_genocide_resume p p [] (dec_by (\<lambda>x. 0 + sum_list (map (\<lambda>t. genocide_hits u t x) ts)) u)"
  proof (rule d_genocide_forest [where W = "\<lambda>ps. d_genocide_resume p p ps" and ts = ts and ws = "[]"])
    fix t us ws g
    assume "ts = ws @ t # us"
    then show "d_genocide_resume p p (root_of t # map root_of us) (dec_by g u) =
      d_genocide_resume p p (map root_of us) (dec_by (\<lambda>x. g x + genocide_hits u t x) u)"
      by (intro d_genocide_tree [OF u(1,2), of _ p d "map root_of ws"]) (use kids d u(3) in auto)
  qed simp
  also have "(\<lambda>x. 0 + sum_list (map (\<lambda>t. genocide_hits u t x) ts)) = (\<lambda>x. of_bool ((live_step s)\<^sup>+\<^sup>+ x p))"
  proof
    fix x
    show "0 + sum_list (map (\<lambda>t. genocide_hits u t x) ts) = of_bool ((live_step s)\<^sup>+\<^sup>+ x p)"
      using kid_sum [OF u(1,2,3) d genocide_hits_once [OF u(1,2) kids]] u(4) by simp
  qed
  also have "d_genocide_resume p p [] w = Some w" for w :: "'a dcache_scheme" by (subst d_genocide_resume.simps) simp
  finally show ?thesis
    using h p d unfolding d_genocide_def u_def by (simp add: lock_simps)
qed

end
