(* ===== verification/Aufs_Tree.thy ===== *)
theory Aufs_Tree
  imports Aufs Dcache_Tree
begin

text \<open>
  What the module builds: the creation of an entry seen as a step on the tree of names, the failures of the
  creation, and the tree that the initialisation of the module leaves.
\<close>

text \<open>
  A directory and a file of aufs, and a state in which aufs is mounted on the tree below \<open>root\<close>: the caches are
  well-formed, nothing is locked, memory is available and the caller may override permissions.
\<close>

definition dir_at :: "'a aufs_scheme \<Rightarrow> ptr \<Rightarrow> bool" where
  "dir_at s r \<longleftrightarrow> (\<exists>q i b. dentries s r = Some q \<and> 0 < d_count q \<and> inodes s (d_inode q) = Some i \<and>
     i_op i = Simple_dir_inode_operations \<and> S_ISDIR (i_mode i) \<and> supers s (i_sb i) = Some b)"

definition file_at :: "'a aufs_scheme \<Rightarrow> ptr \<Rightarrow> bool" where
  "file_at s p \<longleftrightarrow> (\<exists>d i. dentries s p = Some d \<and> inodes s (d_inode d) = Some i \<and> S_ISREG (i_mode i) \<and>
     i_fop i = Aufs_file_operations)"

definition aufs_live :: "ptr \<Rightarrow> 'a aufs_scheme \<Rightarrow> bool" where
  "aufs_live root s \<longleftrightarrow> dcache_wf s \<and> held s = {} \<and> (\<forall>a. mem_ok s a) \<and> CAP_DAC_OVERRIDE \<in> cur_caps s \<and> dir_at s root \<and>
     (\<exists>m b. aufs_mount s \<noteq> 0 \<and> mounts s (aufs_mount s) = Some m \<and> mnt_sb m \<noteq> 0 \<and> supers s (mnt_sb m) = Some b \<and> s_root b = root)"

definition grows :: "'a aufs_scheme \<Rightarrow> 'a aufs_scheme \<Rightarrow> bool" where
  "grows s s' \<longleftrightarrow> (\<forall>x. dir_at s x \<longrightarrow> dir_at s' x) \<and> (\<forall>x. file_at s x \<longrightarrow> file_at s' x) \<and> next_addr s \<le> next_addr s' \<and>
     fstypes s' = fstypes s \<and> file_systems s' = file_systems s \<and> aufs_type_at s' = aufs_type_at s"

definition adds :: "ptr \<Rightarrow> string \<Rightarrow> ptr \<Rightarrow> 'a dcache_scheme \<Rightarrow> 'a dcache_scheme \<Rightarrow> bool" where
  "adds r nm p s s' \<longleftrightarrow> (\<forall>k str x. child_of s' k str x \<longleftrightarrow> child_of s k str x \<or> k = r \<and> str = nm \<and> x = p)"

text \<open>The directory \<open>r\<close> holds files under exactly the names \<open>N\<close>.\<close>

definition holds_files :: "'a aufs_scheme \<Rightarrow> ptr \<Rightarrow> string set \<Rightarrow> bool" where
  "holds_files s r N \<longleftrightarrow> dir_at s r \<and> (\<forall>nm c. child_of s r nm c \<longrightarrow> nm \<in> N \<and> file_at s c) \<and> (\<forall>nm\<in>N. \<exists>c. child_of s r nm c)"

text \<open>
  A user who reads the file to its end in pieces of \<open>k\<close> bytes through the buffer at \<open>buf\<close>, and what there is to
  read.
\<close>

fun cat :: "nat \<Rightarrow> ptr \<Rightarrow> nat \<Rightarrow> int \<Rightarrow> 'a aufs_scheme \<Rightarrow> (string \<times> 'a aufs_scheme) option" where
  "cat 0 buf k pos s = None"
| "cat (Suc fuel) buf k pos s =
     (let ((n, pos'), s') = aufs_file_read 0 buf k pos s in
      if n < 0 then None
      else if n = 0 then Some ([], s')
      else do {
        (str, s'') \<leftarrow> cat fuel buf k pos' s';
        Some (snd (copy_from_user buf (nat n) s') @ str, s'') })"

definition control_text :: "'a aufs_scheme \<Rightarrow> string" where
  "control_text s = (if enabled s \<noteq> 0 then ''aufs read enabled'' else ''aufs read disabled'') @ backslash_n"

section \<open>The tree of the module\<close>

lemma grows_trans: "grows s t \<Longrightarrow> grows t u \<Longrightarrow> grows s u"
  by (auto simp: grows_def)

lemma child_of_dom: "dcache_wf s \<Longrightarrow> child_of s r nm c \<Longrightarrow> r \<in> dom (dentries s)"
  using dentry_okD(3) [OF dcache_wfD(4)] unfolding child_of_def by blast

lemma created_grows:
  assumes wf: "dcache_wf s" and c: "created r nm mode data fops s s'" and f: "aufs_frame s s'"
  shows "grows s s'"
proof -
  obtain q i b where q: "dentries s r = Some q" "inodes s (d_inode q) = Some i" "supers s (i_sb i) = Some b"
    "next_addr s' = next_addr s + name_blocks (mk_qstr nm) + 1"
    "supers s' = (supers s)(i_sb i \<mapsto> b\<lparr>s_inodes := (next_addr s + name_blocks (mk_qstr nm)) # s_inodes b\<rparr>)"
    "dentries s' = (dentries s)(r \<mapsto> q\<lparr>d_count := d_count q + 1, d_subdirs := next_addr s # d_subdirs q\<rparr>,
      next_addr s \<mapsto> entry_dentry r q nm s)"
    "inodes s' = (inodes s)(d_inode q \<mapsto> (if mode AND S_IFMT = S_IFDIR then i\<lparr>i_nlink := i_nlink i + 1\<rparr> else i),
      next_addr s + name_blocks (mk_qstr nm) \<mapsto> entry_inode i b nm mode data fops s)"
    using c unfolding created_def by blast
  have nb: "0 < name_blocks (mk_qstr nm)" by (simp add: name_blocks_def)
  have d: "\<exists>e. dentries s' x = Some e \<and> d_inode e = d_inode d \<and> d_count d \<le> d_count e" if x: "dentries s x = Some d" for x d
  proof -
    have "x \<noteq> next_addr s" using dcache_wf_fresh [OF wf] x by auto
    then show ?thesis using x q(1) by (cases "x = r") (simp_all add: q(6))
  qed
  have j: "\<exists>k. inodes s' x = Some k \<and> i_op k = i_op j \<and> i_mode k = i_mode j \<and> i_sb k = i_sb j \<and> i_fop k = i_fop j"
    if x: "inodes s x = Some j" for x j
  proof -
    have "x < next_addr s" by (rule inode_live [OF dcache_wfD(1) [OF wf] x])
    then have "x \<noteq> next_addr s + name_blocks (mk_qstr nm)" using nb by simp
    then show ?thesis using x q(2) by (cases "x = d_inode q") (simp_all add: q(7))
  qed
  have sb: "\<exists>c. supers s' x = Some c" if "supers s x = Some a" for x a using that by (cases "x = i_sb i") (simp_all add: q(5))
  have "dir_at s' x" if x: "dir_at s x" for x
  proof -
    obtain d k a where k: "dentries s x = Some d" "0 < d_count d" "inodes s (d_inode d) = Some k"
      "i_op k = Simple_dir_inode_operations" "S_ISDIR (i_mode k)" "supers s (i_sb k) = Some a"
      using x unfolding dir_at_def by blast
    from d [OF k(1)] j [OF k(3)] sb [OF k(6)] k(2,4,5) show ?thesis unfolding dir_at_def by fastforce
  qed
  moreover have "file_at s' x" if x: "file_at s x" for x
  proof -
    obtain d k where k: "dentries s x = Some d" "inodes s (d_inode d) = Some k" "S_ISREG (i_mode k)" "i_fop k = Aufs_file_operations"
      using x unfolding file_at_def by blast
    from d [OF k(1)] j [OF k(2)] k(3,4) show ?thesis unfolding file_at_def by fastforce
  qed
  ultimately show ?thesis using q(4) nb f by (simp add: grows_def aufs_frame_def)
qed

lemma created_live:
  assumes l: "aufs_live root s" and wf: "dcache_wf s'" and c: "created r nm mode data fops s s'" and f: "aufs_frame s s'"
  shows "aufs_live root s'"
proof -
  obtain m b where m: "aufs_mount s \<noteq> 0" "mounts s (aufs_mount s) = Some m" "mnt_sb m \<noteq> 0" "supers s (mnt_sb m) = Some b" "s_root b = root"
    using l unfolding aufs_live_def by blast
  obtain k b' xs where sb: "supers s k = Some b'" "supers s' = (supers s)(k \<mapsto> b'\<lparr>s_inodes := xs\<rparr>)"
    using c unfolding created_def by blast
  have "\<exists>c. supers s' (mnt_sb m) = Some c \<and> s_root c = root"
    using sb m(4,5) by (cases "mnt_sb m = k") simp_all
  moreover have "dir_at s' root"
    using created_grows [OF _ c f] l by (auto simp: aufs_live_def grows_def)
  ultimately show ?thesis using l wf f m(1-3) by (auto simp: aufs_live_def aufs_frame_def)
qed

lemma create_step:
  assumes l: "aufs_live root s" and r: "dir_at s r" and nm: "plain_name nm" "length nm \<le> 255" and none: "\<And>c. \<not> child_of s r nm c"
    and mode: "creatable mode"
  obtains s' where "aufs_create_file nm mode r 0 fops s = Some (next_addr s, s')" "aufs_live root s'" "grows s s'"
    "adds r nm (next_addr s) s s'" "created r nm mode 0 fops s s'"
proof -
  obtain q i b where q: "dentries s r = Some q" "0 < d_count q" "inodes s (d_inode q) = Some i"
      "i_op i = Simple_dir_inode_operations" "S_ISDIR (i_mode i)" "supers s (i_sb i) = Some b"
    using r unfolding dir_at_def by blast
  have w: "dcache_wf s" "held s = {}" "\<And>a. mem_ok s a" "CAP_DAC_OVERRIDE \<in> cur_caps s" using l by (auto simp: aufs_live_def)
  have "permission (d_inode q) MAY_EXEC s = Some 0" by (rule permission_override [OF q(3,6,5) w(4)])
  from aufs_create_file_ok [OF w(1,2) q(1,2) nm none q(3,4,6) this _ w(3) mode, of 0 fops] w(3)
  obtain s' where s': "aufs_create_file nm mode r 0 fops s = Some (next_addr s, s')" "dcache_wf s'" "aufs_frame s s'"
    "created r nm mode 0 fops s s'" by (auto simp: d_alloc_mem_def)
  show thesis
    by (rule that [OF s'(1) created_live [OF l s'(2,4,3)] created_grows [OF w(1) s'(4,3)] _ s'(4)])
      (use created_child [OF w(1) s'(4)] in \<open>simp add: adds_def\<close>)
qed

text \<open>With no parent given, the entry goes into the root.\<close>

lemma create_file_root:
  assumes "aufs_live root s"
  shows "aufs_create_file nm mode 0 data fops s = aufs_create_file nm mode root data fops s"
proof -
  obtain m b q where m: "aufs_mount s \<noteq> 0" "mounts s (aufs_mount s) = Some m" "mnt_sb m \<noteq> 0" "supers s (mnt_sb m) = Some b" "s_root b = root"
    "dentries s root = Some q" "dcache_wf s" using assms unfolding aufs_live_def dir_at_def by blast
  have "root \<noteq> 0" using dentry_parent_pos(2) [OF m(7,6)] by simp
  then have "aufs_create_by_name nm mode 0 dentry_slot 0 s = aufs_create_by_name nm mode root dentry_slot 0 s"
    using m by (simp add: aufs_create_by_name_def)
  then show ?thesis by (simp add: aufs_create_file_def)
qed

text \<open>A directory in the root, and a file in a directory.\<close>

lemma create_dir_step:
  assumes l: "aufs_live root s" and nm: "plain_name nm" "length nm \<le> 255" and none: "\<And>c. \<not> child_of s root nm c"
  obtains s' where "aufs_create_dir nm 0 s = Some (next_addr s, s')" "aufs_live root s'" "grows s s'"
    "adds root nm (next_addr s) s s'" "dir_at s' (next_addr s)" "next_addr s \<notin> dom (dentries s)"
proof -
  let ?m = "S_IFDIR OR S_IRWXU OR S_IRUGO :: 32 word"
  have m: "creatable ?m" by (simp add: creatable_def file_or_dir_def)
  have r: "dir_at s root" and wf: "dcache_wf s" using l by (simp_all add: aufs_live_def)
  obtain s' where s': "aufs_create_file nm ?m root 0 None s = Some (next_addr s, s')" "aufs_live root s'" "grows s s'"
    "adds root nm (next_addr s) s s'" "created root nm ?m 0 None s s'" by (rule create_step [OF l r nm none m])
  obtain q i b where q: "supers s (i_sb i) = Some b"
    "supers s' = (supers s)(i_sb i \<mapsto> b\<lparr>s_inodes := (next_addr s + name_blocks (mk_qstr nm)) # s_inodes b\<rparr>)"
    "dentries s' (next_addr s) = Some (entry_dentry root q nm s)"
    "inodes s' (next_addr s + name_blocks (mk_qstr nm)) = Some (entry_inode i b nm ?m 0 None s)"
    using s'(5) unfolding created_def by auto
  have j: "i_op (entry_inode i b nm ?m 0 None s) = Simple_dir_inode_operations" "S_ISDIR (i_mode (entry_inode i b nm ?m 0 None s))"
    by (simp_all add: S_ISDIR_def by_name_mode_def) (simp add: entry_inode_def aufs_inode_def by_name_mode_def Let_def)
  have d: "dir_at s' (next_addr s)" using q j unfolding dir_at_def by simp
  have f: "next_addr s \<notin> dom (dentries s)" using dcache_wf_fresh [OF wf] by auto
  show thesis
    by (rule that [OF _ s'(2-4) d f]) (use s'(1) create_file_root [OF l] in \<open>simp add: aufs_create_dir_def\<close>)
qed

lemma create_regular_step:
  assumes l: "aufs_live root s" and r: "dir_at s r" and nm: "plain_name nm" "length nm \<le> 255" and none: "\<And>c. \<not> child_of s r nm c"
  obtains s' where "aufs_create_regular nm r s = Some s'" "aufs_live root s'" "grows s s'"
    "adds r nm (next_addr s) s s'" "file_at s' (next_addr s)"
proof -
  let ?m = "S_IFREG OR S_IRUGO :: 32 word"
  have m: "creatable ?m" by (simp add: creatable_def file_or_dir_def)
  obtain s' where s': "aufs_create_file nm ?m r 0 (Some Aufs_file_operations) s = Some (next_addr s, s')" "aufs_live root s'" "grows s s'"
    "adds r nm (next_addr s) s s'" "created r nm ?m 0 (Some Aufs_file_operations) s s'" by (rule create_step [OF l r nm none m])
  obtain q i b where q: "dentries s' (next_addr s) = Some (entry_dentry r q nm s)"
    "inodes s' (next_addr s + name_blocks (mk_qstr nm)) = Some (entry_inode i b nm ?m 0 (Some Aufs_file_operations) s)"
    using s'(5) unfolding created_def by auto
  have "i_fop (entry_inode i b nm ?m 0 (Some Aufs_file_operations) s) = Aufs_file_operations"
    "S_ISREG (i_mode (entry_inode i b nm ?m 0 (Some Aufs_file_operations) s))"
    by (simp_all add: S_ISREG_def by_name_mode_def) (simp add: entry_inode_def Let_def)
  then have "file_at s' (next_addr s)" using q unfolding file_at_def by simp
  with s' show thesis by (intro that) (simp_all add: aufs_create_regular_def)
qed

lemma create_three:
  assumes l: "aufs_live root s" and r: "dir_at s r" and nm: "\<forall>nm\<in>{a, b, c}. plain_name nm \<and> length nm \<le> 255"
    and d: "distinct [a, b, c]" and none: "\<And>nm x. \<not> child_of s r nm x"
  obtains s1 s2 s3 where "aufs_create_regular a r s = Some s1" "aufs_create_regular b r s1 = Some s2"
    "aufs_create_regular c r s2 = Some s3" "aufs_live root s3" "grows s s3"
    "holds_files s3 r {a, b, c}"
    "\<And>k nm x. k \<noteq> r \<Longrightarrow> child_of s3 k nm x \<longleftrightarrow> child_of s k nm x"
proof -
  obtain s1 where s1: "aufs_create_regular a r s = Some s1" "aufs_live root s1" "grows s s1" "adds r a (next_addr s) s s1"
    "file_at s1 (next_addr s)" using create_regular_step [OF l r, of a] nm none by auto
  have r1: "dir_at s1 r" using s1(3) r by (simp add: grows_def)
  have "\<not> child_of s1 r b x" for x using s1(4) none d by (auto simp: adds_def)
  then obtain s2 where s2: "aufs_create_regular b r s1 = Some s2" "aufs_live root s2" "grows s1 s2" "adds r b (next_addr s1) s1 s2"
    "file_at s2 (next_addr s1)" using create_regular_step [OF s1(2) r1, of b] nm by auto
  have r2: "dir_at s2 r" using s2(3) r1 by (simp add: grows_def)
  have "\<not> child_of s2 r c x" for x using s1(4) s2(4) none d by (auto simp: adds_def)
  then obtain s3 where s3: "aufs_create_regular c r s2 = Some s3" "aufs_live root s3" "grows s2 s3" "adds r c (next_addr s2) s2 s3"
    "file_at s3 (next_addr s2)" using create_regular_step [OF s2(2) r2, of c] nm by auto
  have f: "file_at s3 (next_addr s)" "file_at s3 (next_addr s1)" using s1(5) s2(3,5) s3(3) by (auto simp: grows_def)
  have ch: "child_of s3 k nm x \<longleftrightarrow> child_of s k nm x \<or> k = r \<and>
      (nm = a \<and> x = next_addr s \<or> nm = b \<and> x = next_addr s1 \<or> nm = c \<and> x = next_addr s2)" for k nm x
    using s1(4) s2(4) s3(4) unfolding adds_def by blast
  show thesis
  proof (rule that [OF s1(1) s2(1) s3(1,2)])
    show "grows s s3" by (rule grows_trans [OF s1(3) grows_trans [OF s2(3) s3(3)]])
    show "holds_files s3 r {a, b, c}"
      unfolding holds_files_def ch using none f s3(5) r2 s3(3) by (auto simp: grows_def)
    show "k \<noteq> r \<Longrightarrow> child_of s3 k nm x \<longleftrightarrow> child_of s k nm x" for k nm x unfolding ch by auto
  qed
qed

lemma grows_holds_files:
  "grows s s' \<Longrightarrow> (\<And>nm x. child_of s' r nm x \<longleftrightarrow> child_of s r nm x) \<Longrightarrow> holds_files s r N \<Longrightarrow> holds_files s' r N"
  unfolding holds_files_def grows_def by blast

text \<open>The whole of the module's initialisation.\<close>

lemma dir_at_fresh:
  assumes l: "aufs_live root s" and "p \<notin> dom (dentries s)" and a: "adds root nm p s s'"
  shows "\<not> child_of s' p str c" "p \<noteq> root"
proof -
  have wf: "dcache_wf s" and r: "root \<in> dom (dentries s)" using l by (auto simp: aufs_live_def dir_at_def)
  show pr: "p \<noteq> root" using r assms(2) by auto
  have "\<not> child_of s p str c" using child_of_dom [OF wf, of p str c] assms(2) by blast
  with pr show "\<not> child_of s' p str c" using a by (simp add: adds_def)
qed

lemma plain_names:
  "\<forall>nm\<in>{''lbb'', ''fbb'', ''lj1''}. plain_name nm \<and> length nm \<le> 255"
  "\<forall>nm\<in>{''ldh'', ''lcw'', ''jw''}. plain_name nm \<and> length nm \<le> 255"
  "plain_name ''woman_star''" "plain_name ''man_star''"
  by (simp_all add: plain_name_def)

lemma aufs_init_tree:
  assumes reg: "register_filesystem (aufs_type_at s) s = Some (0, s0)"
    and km: "km (aufs_type_at s0) s0 = Some (mnt, s1)" "\<not> IS_ERR mnt" and l: "aufs_live root (s1\<lparr>aufs_mount := mnt\<rparr>)"
    and empty: "\<And>nm c. \<not> child_of s1 root nm c"
  shows "\<exists>s' w m. aufs_init km s = Some (0, s') \<and> aufs_live root s' \<and>
    (\<forall>nm c. child_of s' root nm c \<longleftrightarrow> nm = ''woman_star'' \<and> c = w \<or> nm = ''man_star'' \<and> c = m) \<and>
    holds_files s' w {''lbb'', ''fbb'', ''lj1''} \<and> holds_files s' m {''ldh'', ''lcw'', ''jw''}"
proof -
  let ?s = "s1\<lparr>aufs_mount := mnt\<rparr>"
  have e: "\<not> child_of ?s root nm c" for nm c using empty by (simp add: child_of_def)
  obtain t where t: "aufs_create_dir ''woman_star'' 0 ?s = Some (next_addr ?s, t)" "aufs_live root t" "grows ?s t"
      "adds root ''woman_star'' (next_addr ?s) ?s t" "dir_at t (next_addr ?s)" "next_addr ?s \<notin> dom (dentries ?s)"
    by (rule create_dir_step [OF l plain_names(3) _ e]) auto
  let ?w = "next_addr ?s"
  note wr = dir_at_fresh [OF l t(6,4)]
  obtain t1 t2 t3 where u: "aufs_create_regular ''lbb'' ?w t = Some t1" "aufs_create_regular ''fbb'' ?w t1 = Some t2"
      "aufs_create_regular ''lj1'' ?w t2 = Some t3" "aufs_live root t3" "grows t t3" "holds_files t3 ?w {''lbb'', ''fbb'', ''lj1''}"
      "\<And>k nm x. k \<noteq> ?w \<Longrightarrow> child_of t3 k nm x \<longleftrightarrow> child_of t k nm x"
    by (rule create_three [OF t(2,5) plain_names(1) _ wr(1)]) auto
  have rw: "child_of t3 root nm c \<longleftrightarrow> nm = ''woman_star'' \<and> c = ?w" for nm c
    using u(7) [of root nm c] wr(2) t(4) e by (simp add: adds_def)
  obtain v where v: "aufs_create_dir ''man_star'' 0 t3 = Some (next_addr t3, v)" "aufs_live root v" "grows t3 v"
      "adds root ''man_star'' (next_addr t3) t3 v" "dir_at v (next_addr t3)" "next_addr t3 \<notin> dom (dentries t3)"
    by (rule create_dir_step [OF u(4) plain_names(4)]) (auto simp: rw)
  let ?m = "next_addr t3"
  note mr = dir_at_fresh [OF u(4) v(6,4)]
  obtain v1 v2 v3 where z: "aufs_create_regular ''ldh'' ?m v = Some v1" "aufs_create_regular ''lcw'' ?m v1 = Some v2"
      "aufs_create_regular ''jw'' ?m v2 = Some v3" "aufs_live root v3" "grows v v3" "holds_files v3 ?m {''ldh'', ''lcw'', ''jw''}"
      "\<And>k nm x. k \<noteq> ?m \<Longrightarrow> child_of v3 k nm x \<longleftrightarrow> child_of v k nm x"
    by (rule create_three [OF v(2,5) plain_names(2) _ mr(1)]) auto
  have "?w \<in> dom (dentries t3)" using u(6) by (auto simp: holds_files_def dir_at_def)
  then have wm: "?w \<noteq> ?m" using v(6) by auto
  have "holds_files v ?w {''lbb'', ''fbb'', ''lj1''}"
    by (rule grows_holds_files [OF v(3) _ u(6)]) (use v(4) wr(2) in \<open>simp add: adds_def\<close>)
  then have lw: "holds_files v3 ?w {''lbb'', ''fbb'', ''lj1''}" by (rule grows_holds_files [OF z(5) z(7) [OF wm]])
  have ch: "child_of v3 root nm c \<longleftrightarrow> nm = ''woman_star'' \<and> c = ?w \<or> nm = ''man_star'' \<and> c = ?m" for nm c
    using z(7) [of root nm c] mr(2) v(4) rw by (simp add: adds_def)
  have "aufs_init km s = Some (0, v3)"
    using reg km t(1) u(1-3) v(1) z(1-3) by (simp add: aufs_init_def)
  with z(4,6) lw ch show ?thesis by blast
qed

section \<open>Creations that fail\<close>

text \<open>A name that is taken: nothing is made, but the reference the lookup took stays.\<close>

lemma create_by_name_exists:
  assumes wf: "dcache_wf s" and h: "held s = {}" and q: "dentries s r = Some q" and nm: "plain_name nm"
    and c: "child_of s r nm c" "dentries s c = Some d" "d_inode d \<noteq> 0"
    and perm: "permission (d_inode q) MAY_EXEC s = Some 0" and slot: "\<not> IS_ERR slot"
  shows "aufs_create_by_name nm mode r slot dd s =
    Some ((- EEXIST, c), s\<lparr>dentries := (dentries s)(c \<mapsto> d\<lparr>d_count := d_count d + 1\<rparr>)\<rparr>)"
proof -
  let ?s = "s\<lparr>dentries := (dentries s)(c \<mapsto> d\<lparr>d_count := d_count d + 1\<rparr>)\<rparr>"
  have "lookup_one_len i_op_lookup nm r (length nm) s = Some (c, ?s)"
    unfolding lookup_one_len_plain [OF nm] by (rule lookup_hash_hit [OF wf h q]) (use c perm in simp_all)
  moreover have "r \<noteq> 0" using dentry_parent_pos(2) [OF wf q] by simp
  moreover obtain p where "dentries ?s r = Some p" using q by (cases "r = c") auto
  moreover have "aufs_mknod dir c m dev ?s = Some (- EEXIST, ?s)" for dir m dev
    by (rule aufs_mknod_exists [of _ _ "d\<lparr>d_count := d_count d + 1\<rparr>"]) (use c in simp_all)
  ultimately show ?thesis using slot
    by (simp add: aufs_create_by_name_def aufs_mkdir_def aufs_create_def)
qed

lemma aufs_create_file_exists:
  assumes "dcache_wf s" and "held s = {}" and "dentries s r = Some q" and "plain_name nm"
    and "child_of s r nm c" "dentries s c = Some d" "d_inode d \<noteq> 0" and "permission (d_inode q) MAY_EXEC s = Some 0"
  shows "aufs_create_file nm mode r data fops s =
    Some (0, s\<lparr>dentries := (dentries s)(c \<mapsto> d\<lparr>d_count := d_count d + 1\<rparr>)\<rparr>)"
proof -
  have "\<not> IS_ERR dentry_slot" by (simp add: dentry_slot_def IS_ERR_def)
  from create_by_name_exists [OF assms this] show ?thesis by (simp add: aufs_create_file_def)
qed

text \<open>
  A lookup that fails: the code tests the address of its variable instead of the pointer in it, and goes on
  with the error as if it were a dentry.
\<close>

lemma create_by_name_oops:
  assumes wf: "dcache_wf s" and r: "dentries s r = Some q" and slot: "\<not> IS_ERR slot"
    and lk: "lookup_one_len i_op_lookup nm r (length nm) s = Some (ERR_PTR e, s)" "e \<le> 0"
  shows "aufs_create_by_name nm mode r slot dd s = None"
proof -
  have "dentries s e = None" using dentry_parent_pos(2) [OF wf, of e] lk(2) by (cases "dentries s e") auto
  moreover have "r \<noteq> 0" using dentry_parent_pos(2) [OF wf r] by simp
  ultimately show ?thesis using lk(1) slot r
    by (simp add: aufs_create_by_name_def aufs_mkdir_def aufs_create_def aufs_mknod_def ERR_PTR_def)
qed

lemma aufs_create_file_oops:
  assumes "dcache_wf s" and "dentries s r = Some q" and "\<not> plain_name nm"
  shows "aufs_create_file nm mode r data fops s = None"
proof -
  have "\<not> IS_ERR dentry_slot" by (simp add: dentry_slot_def IS_ERR_def)
  from create_by_name_oops [OF assms(1,2) this lookup_one_len_refused [OF assms(3)]] show ?thesis
    by (simp add: aufs_create_file_def)
qed

text \<open>The initialisation when a step before the files fails.\<close>

lemma aufs_init_busy:
  "register_filesystem (aufs_type_at s) s = Some (e, s') \<Longrightarrow> e \<noteq> 0 \<Longrightarrow> aufs_init km s = Some (e, s')"
  by (simp add: aufs_init_def)

lemma only_types_aufs:
  "only_types s s' \<Longrightarrow> aufs_type_at s' = aufs_type_at s \<and> aufs_mount s' = aufs_mount s"
  by (auto simp: only_types_def)

lemma aufs_init_no_mount:
  assumes r: "registered s xs" and h: "File_systems_lock \<notin> held s" and fr: "fs_fresh (aufs_type_at s) s"
    and km: "\<And>s1. km (aufs_type_at s) s1 = Some (e, s1)" "IS_ERR e"
  shows "\<exists>s'. aufs_init km s = Some (0, s') \<and> registered s' xs \<and> aufs_mount s' = e"
proof -
  obtain s1 where s: "register_filesystem (aufs_type_at s) s = Some (0, s1)" "registered s1 (xs @ [aufs_type_at s])"
      "held s1 = held s" "only_types s s1" using register_fresh [OF r h fr] by blast
  note a = only_types_aufs [OF s(4)]
  let ?t = "s1\<lparr>aufs_mount := e\<rparr>"
  have "registered ?t (xs @ aufs_type_at s # [])" using s(2) by (simp add: registered_def fs_links_def [abs_def] fs_named_def [abs_def])
  from unregister_ok [OF this] s(3) h obtain s2 where u: "unregister_filesystem (aufs_type_at s) ?t = Some (0, s2)" "registered s2 xs"
    "only_types ?t s2" by auto
  have "aufs_init km s = Some (0, s2)" using s(1) a km u(1) by (simp add: aufs_init_def)
  moreover have "aufs_mount s2 = e" using only_types_aufs [OF u(3)] by simp
  ultimately show ?thesis using u(2) by blast
qed

section \<open>The control file\<close>

lemma aufs_file_write_ok:
  "umem s buf = Some c \<Longrightarrow> aufs_file_write fl buf n pos s = Some (int n, s\<lparr>enabled := of_bool (c \<noteq> CHR ''0'')\<rparr>)"
  using of_char_eq_iff [of c "CHR ''0''", where 'a = nat] by (simp add: aufs_file_write_def)

lemma aufs_file_read_text:
  "aufs_file_read fl buf n pos s = simple_read_from_buffer buf n pos (control_text s) (length (control_text s)) s"
  by (simp add: aufs_file_read_def control_text_def)

lemma cat_rest:
  assumes "user_ok buf k s" and "0 < k" and "pos \<le> length (control_text s)" and "length (control_text s) < fuel + pos"
  shows "\<exists>m. cat fuel buf k (int pos) s = Some (drop pos (control_text s), s\<lparr>umem := m\<rparr>)"
  using assms
proof (induction fuel arbitrary: pos s)
  case (Suc fuel)
  let ?t = "control_text s"
  show ?case
  proof (cases "pos = length ?t")
    case True
    then have "aufs_file_read 0 buf k (int pos) s = ((0, int pos), s)"
      unfolding aufs_file_read_text by (simp add: simple_read_from_buffer_def)
    then show ?thesis using True by (auto intro!: exI [of _ "umem s"])
  next
    case False
    define j where "j = min k (length ?t - pos)"
    have j: "0 < j" "pos + j \<le> length ?t" using False Suc.prems by (auto simp: j_def)
    have "pos < length ?t" using False Suc.prems(3) by simp
    then obtain m where m: "aufs_file_read 0 buf k (int pos) s = ((int j, int (pos + j)), s\<lparr>umem := m\<rparr>)"
      "dom m = dom (umem s)" "\<forall>x<j. m (buf + int x) = Some (?t ! (pos + x))"
      unfolding aufs_file_read_text j_def by (rule simple_read_ok [OF _ Suc.prems(1)])
    let ?s = "s\<lparr>umem := m\<rparr>"
    have t: "control_text ?s = ?t" by (simp add: control_text_def)
    have "user_ok buf k ?s" using Suc.prems(1) m(2) by (simp add: user_ok_def)
    then obtain m' where m': "cat fuel buf k (int (pos + j)) ?s = Some (drop (pos + j) ?t, ?s\<lparr>umem := m'\<rparr>)"
      using Suc.IH [of ?s "pos + j"] Suc.prems j t by auto
    have "copy_from_user buf (length (take j (drop pos ?t))) ?s = (0, take j (drop pos ?t))"
      by (rule copy_from_user_ok) (use m(3) j in simp)
    then have "copy_from_user buf j ?s = (0, take j (drop pos ?t))" using j by simp
    moreover have "take j (drop pos ?t) @ drop (pos + j) ?t = drop pos ?t" by (metis append_take_drop_id drop_drop add.commute)
    ultimately show ?thesis using m(1) m' j by auto
  qed
qed simp

lemma cat_all:
  assumes "user_ok buf k s" and "0 < k"
  shows "\<exists>m. cat 21 buf k 0 s = Some (control_text s, s\<lparr>umem := m\<rparr>)"
  using cat_rest [OF assms, of 0 21] by (simp add: control_text_def backslash_n_def)

section \<open>Taking the tree down\<close>

lemma created_step:
  assumes wf: "dcache_wf s" and c: "created r nm mode data fops s s'"
  shows "parent_step s' x y \<longleftrightarrow> parent_step s x y \<or> x = next_addr s \<and> y = r"
proof -
  obtain q where q: "dentries s r = Some q" "dentries s' = (dentries s)(r \<mapsto> q\<lparr>d_count := d_count q + 1, d_subdirs := next_addr s # d_subdirs q\<rparr>,
    next_addr s \<mapsto> entry_dentry r q nm s)" using c by (auto simp: created_def)
  have "r \<noteq> next_addr s" using dcache_wf_fresh [OF wf] q(1) by auto
  moreover have "d_parent (entry_dentry r q nm s) = r" by (simp add: entry_dentry_def neg_child_def)
  ultimately show ?thesis using dcache_wf_fresh [OF wf] q by (auto simp: parent_step_def)
qed

lemma created_ranked:
  assumes wf: "dcache_wf s" and c: "created r nm mode data fops s s'" and rk: "ranked s rk"
  shows "ranked s' (rk(next_addr s := Suc (rk r)))"
proof -
  have "dentries s (next_addr s) = None" using dcache_wf_fresh [OF wf] by auto
  moreover obtain q where "dentries s r = Some q" using c by (auto simp: created_def)
  moreover have "y \<noteq> next_addr s" if st: "parent_step s x y" for x y
  proof -
    obtain d where "dentries s x = Some d" "d_parent d = y" using st by (auto simp: parent_step_def)
    then show ?thesis using dentry_okD(3) [OF dcache_wfD(4) [OF wf]] calculation(1) by fastforce
  qed
  moreover have "x \<noteq> next_addr s" if st: "parent_step s x y" for x y using st calculation(1) by (auto simp: parent_step_def)
  ultimately show ?thesis using rk unfolding ranked_def created_step [OF wf c] by (metis fun_upd_apply lessI option.distinct(1))
qed

lemma created_entered:
  assumes wf: "dcache_wf s" and c: "created r nm mode data fops s s'"
  shows "live_step s' (next_addr s) r" "\<exists>d. dentries s' (next_addr s) = Some d \<and> d_count d = 2"
proof -
  obtain q where q: "dentries s' (next_addr s) = Some (entry_dentry r q nm s)" using c by (auto simp: created_def)
  have "0 < next_addr s" by (rule icache_wfD(1) [OF dcache_wfD(1) [OF wf]])
  then have "entered s' (next_addr s)" using q
    by (auto simp: entered_def entry_dentry_def neg_child_def d_unhashed_def name_blocks_def)
  then show "live_step s' (next_addr s) r" by (simp add: live_step_def created_step [OF wf c])
  show "\<exists>d. dentries s' (next_addr s) = Some d \<and> d_count d = 2" using q by (simp add: entry_dentry_def)
qed

lemma entry_pinned:
  assumes l: "aufs_live root s" and rk: "ranked s rk" and nm: "plain_name nm" "length nm \<le> 255" and none: "\<And>c. \<not> child_of s root nm c"
    and mode: "creatable mode"
  shows "\<exists>s1 s2 d. aufs_create_file nm mode root 0 fops s = Some (next_addr s, s1) \<and> d_genocide root s1 = Some s2 \<and>
    dentries s2 (next_addr s) = Some d \<and> d_count d = 1"
proof -
  have r: "dir_at s root" "dcache_wf s" using l by (simp_all add: aufs_live_def)
  obtain s1 where s1: "aufs_create_file nm mode root 0 fops s = Some (next_addr s, s1)" "aufs_live root s1"
      "created root nm mode 0 fops s s1"
    by (rule create_step [OF l r(1) nm none mode])
  have w: "dcache_wf s1" "held s1 = {}" "dir_at s1 root" using s1(2) by (simp_all add: aufs_live_def)
  obtain q where q: "dentries s1 root = Some q" using w(3) by (auto simp: dir_at_def)
  note g = d_genocide_ok [OF w(1,2) created_ranked [OF r(2) s1(3) rk] q]
  obtain d where d: "dentries s1 (next_addr s) = Some d" "d_count d = 2" using created_entered(2) [OF r(2) s1(3)] by blast
  have "(live_step s1)\<^sup>+\<^sup>+ (next_addr s) root" using created_entered(1) [OF r(2) s1(3)] by (rule tranclp.r_into_trancl)
  then have "dentries (dec_by (\<lambda>x. of_bool ((live_step s1)\<^sup>+\<^sup>+ x root)) s1) (next_addr s) = Some (d\<lparr>d_count := 1\<rparr>)"
    using d by (simp add: dec_by_at)
  with s1(1) g show ?thesis by auto
qed

end
