(* ===== verification/Aufs_Mount.thy ===== *)
theory Aufs_Mount
  imports Aufs_Tree
begin

text \<open>
  The mount of aufs by the kernel beside it: what \<^verbatim>\<open>kern_mount\<close>, \<^verbatim>\<open>get_sb_single\<close>, \<^verbatim>\<open>sget\<close>, \<^verbatim>\<open>set_anon_super\<close>,
  \<^verbatim>\<open>simple_fill_super\<close>, \<^verbatim>\<open>d_alloc_root\<close> and \<^verbatim>\<open>do_remount_sb\<close> do for a type without a superblock, one effect lemma each, and
  their composition with the initialisation of the module. Nothing here models code.
\<close>

text \<open>What \<^verbatim>\<open>alloc_vfsmnt\<close> and \<^verbatim>\<open>sget\<close> make when memory is available.\<close>

definition new_mnt :: "string \<Rightarrow> vfsmount" where
  "new_mnt nm = \<lparr>mnt_parent = 0, mnt_mountpoint = 0, mnt_root = 0, mnt_sb = 0, mnt_mounts = [], mnt_count = 1, mnt_flags = 0,
     mnt_expiry_mark = 0, mnt_devname = Some nm\<rparr>"

definition anon_super :: "ptr \<Rightarrow> file_system_type \<Rightarrow> 'a vfs_scheme \<Rightarrow> super_block" where
  "anon_super ty t s = new_super\<lparr>s_dev := of_nat (least_free (unnamed_dev_idr s)), s_type := ty, s_id := take 31 (fs_name t)\<rparr>"

definition with_super :: "ptr \<Rightarrow> file_system_type \<Rightarrow> 'a vfs_scheme \<Rightarrow> 'a vfs_scheme" where
  "with_super ty t s = s\<lparr>next_addr := next_addr s + 2, supers := (supers s)(next_addr s \<mapsto> anon_super ty t s),
     fstypes := (fstypes s)(ty \<mapsto> t\<lparr>fs_supers := [next_addr s]\<rparr>), super_blocks := super_blocks s @ [next_addr s],
     unnamed_dev_idr := least_free (unnamed_dev_idr s) # unnamed_dev_idr s\<rparr>"

text \<open>The root \<open>p\<close> of a superblock, on the inode \<open>n\<close>.\<close>

definition fs_root :: "ptr \<Rightarrow> ptr \<Rightarrow> ptr \<Rightarrow> dentry" where
  "fs_root sb p n = \<lparr>d_count = 1, d_flags = DCACHE_UNHASHED, d_inode = n, d_parent = p,
     d_name = \<lparr>q_hash = 0, q_len = 1, q_name = ''/''\<rparr>, d_subdirs = [], d_op = No_dops, d_sb = sb, d_fsdata = 0, d_mounted = 0,
     d_iname = ''/'', d_external = False\<rparr>"

text \<open>The superblock and the root inode that \<^verbatim>\<open>aufs_fill_super\<close> sets up, and the state after it.\<close>

definition aufs_super :: "super_block \<Rightarrow> super_block" where
  "aufs_super b = b\<lparr>s_blocksize := PAGE_CACHE_SIZE, s_blocksize_bits := PAGE_CACHE_SHIFT, s_magic := AUFS_MAGIC, s_op := Simple_s_ops,
     s_time_gran := 1\<rparr>"

definition root_inode :: "ptr \<Rightarrow> super_block \<Rightarrow> 'a icache_scheme \<Rightarrow> inode" where
  "root_inode sb b s = (fresh_inode sb (aufs_super b) s)\<lparr>i_mode := S_IFDIR OR 0x1ED, i_uid := 0, i_gid := 0,
     i_blksize := PAGE_CACHE_SIZE, i_blocks := 0, i_atime := cur_time s, i_mtime := cur_time s, i_ctime := cur_time s,
     i_op := Simple_dir_inode_operations, i_fop := Simple_dir_operations\<rparr>"

definition filled :: "ptr \<Rightarrow> super_block \<Rightarrow> 'a dcache_scheme \<Rightarrow> 'a dcache_scheme" where
  "filled sb b s = (let n = next_addr s in s\<lparr>next_addr := n + 2,
     supers := (supers s)(sb \<mapsto> (aufs_super b)\<lparr>s_inodes := n # s_inodes b, s_root := n + 1\<rparr>),
     inodes := (inodes s)(n \<mapsto> (root_inode sb b s)\<lparr>i_dentry := [n + 1]\<rparr>),
     inode_in_use := n # inode_in_use s, nr_inodes := nr_inodes s + 1, last_ino := last_ino s + 1,
     dentries := (dentries s)(n + 1 \<mapsto> fs_root sb (n + 1) n), nr_dentry := nr_dentry s + 1\<rparr>)"

text \<open>The state after \<^verbatim>\<open>get_sb_single\<close> has made the superblock of a type that has none.\<close>

definition single :: "ptr \<Rightarrow> file_system_type \<Rightarrow> 'a vfs_scheme \<Rightarrow> 'a vfs_scheme" where
  "single ty t s = (let f = filled (next_addr s) (anon_super ty t s) (with_super ty t s) in
     f\<lparr>supers := (supers f)(next_addr s \<mapsto> (aufs_super (anon_super ty t s))\<lparr>s_inodes := [next_addr s + 2],
       s_root := next_addr s + 3, s_flags := MS_ACTIVE\<rparr>)\<rparr>)"

lemma least_free_ok: "least_free ns \<notin> set ns" "least_free ns \<le> length ns" "m < least_free ns \<Longrightarrow> m \<in> set ns"
proof -
  let ?xs = "filter (\<lambda>n. n \<notin> set ns) [0..<Suc (length ns)]"
  have "\<not> {0..<Suc (length ns)} \<subseteq> set ns"
  proof
    assume "{0..<Suc (length ns)} \<subseteq> set ns"
    then have "card {0..<Suc (length ns)} \<le> card (set ns)" by (intro card_mono) simp_all
    then show False using card_length [of ns] by simp
  qed
  then have ne: "?xs \<noteq> []" by (auto simp: filter_empty_conv simp del: upt_Suc)
  then have "hd ?xs \<in> set ?xs" by (rule hd_in_set)
  then show *: "least_free ns \<notin> set ns" "least_free ns \<le> length ns" by (auto simp: least_free_def simp del: upt_Suc)
  have "sorted ?xs" by (rule sorted_wrt_filter) (rule sorted_upt)
  show "m \<in> set ns" if m: "m < least_free ns"
  proof (rule ccontr)
    assume "m \<notin> set ns"
    then have "m \<in> set ?xs" using m *(2) by (simp del: upt_Suc)
    then have "hd ?xs \<le> m" using \<open>sorted ?xs\<close> ne by (cases ?xs) (auto simp del: upt_Suc)
    then show False using m by (simp add: least_free_def del: upt_Suc)
  qed
qed

lemma alloc_vfsmnt_ok:
  assumes "held s = {}" and "\<And>a. mem_ok s a" and "0 < next_addr s"
  shows "alloc_vfsmnt (Some nm) s =
    Some (next_addr s, s\<lparr>next_addr := next_addr s + 2, mounts := (mounts s)(next_addr s \<mapsto> new_mnt nm)\<rparr>)"
  using assms by (simp add: alloc_vfsmnt_def kalloc_def might_sleep_def kalloc_atomic_def new_mnt_def)

lemma set_anon_super_ok:
  assumes "Unnamed_dev_lock \<notin> held s" and "mem_ok s (next_addr s)" and "0 < next_addr s" and "supers s sb = Some b"
    and "least_free (unnamed_dev_idr s) < 2 ^ 20"
  shows "set_anon_super sb s = Some (0, s\<lparr>next_addr := next_addr s + 1, supers := (supers s)(sb \<mapsto> b\<lparr>s_dev := of_nat (least_free (unnamed_dev_idr s))\<rparr>),
    unnamed_dev_idr := least_free (unnamed_dev_idr s) # unnamed_dev_idr s\<rparr>)"
  using assms by (simp add: set_anon_super_def idr_pre_get_def kalloc_atomic_def Let_def lock_simps)

lemma set_anon_super_full:
  assumes "Unnamed_dev_lock \<notin> held s" and "mem_ok s (next_addr s)" and "0 < next_addr s"
    and "least_free (unnamed_dev_idr s) = 2 ^ 20" and "2 ^ 20 \<notin> set (unnamed_dev_idr s)"
  shows "set_anon_super sb s = Some (- EMFILE, s\<lparr>next_addr := next_addr s + 1\<rparr>)"
proof -
  have "removeAll (1048576 :: nat) (unnamed_dev_idr s) = unnamed_dev_idr s" using assms(5) by (simp add: removeAll_id)
  then show ?thesis using assms(1-4)
    by (simp add: set_anon_super_def idr_pre_get_def kalloc_atomic_def idr_remove_def Let_def lock_simps)
qed

text \<open>The numbers in use are below the limit; the next one is the least that is free.\<close>

lemma least_free_limit:
  assumes "set ns \<subseteq> {..<k}"
  shows "least_free ns \<le> k" "least_free ns = k \<longleftrightarrow> {..<k} \<subseteq> set ns"
proof -
  have "\<not> k < least_free ns" using least_free_ok(3) [of k ns] assms by auto
  then show le: "least_free ns \<le> k" by simp
  show "least_free ns = k \<longleftrightarrow> {..<k} \<subseteq> set ns"
    using least_free_ok(1) [of ns] least_free_ok(3) [of _ ns] le by (auto simp: le_less)
qed

lemma sget_fresh:
  assumes h: "held s = {}" and m: "\<And>a. mem_ok s a" and n: "0 < next_addr s" and t: "fstypes s ty = Some t" "fs_supers t = []" "fs_owner t = 0"
    and d: "length (unnamed_dev_idr s) < 2 ^ 20"
  shows "sget ty (Some compare_single) set_anon_super s = Some (next_addr s, with_super ty t s)"
proof -
  define v where "v = s\<lparr>next_addr := next_addr s + 1, supers := (supers s)(next_addr s \<mapsto> new_super)\<rparr>"
  have hs: "held_update (\<lambda>x. x - {Sb_lock}) s = s" by (rule held_idem) (simp add: h)
  define u where "u = held_update (insert Sb_lock) v"
  have one: "sget_retry ty (Some compare_single) set_anon_super 0 s = sget_retry ty (Some compare_single) set_anon_super (next_addr s) v"
    using h m n t(1,2) unfolding v_def
    by (subst sget_retry.simps) (simp add: alloc_super_def kalloc_def might_sleep_def kalloc_atomic_def lock_simps hs)
  have u: "set_anon_super (next_addr s) u = Some (0, u\<lparr>next_addr := next_addr s + 2, supers := (supers s)(next_addr s \<mapsto>
      new_super\<lparr>s_dev := of_nat (least_free (unnamed_dev_idr s))\<rparr>), unnamed_dev_idr := least_free (unnamed_dev_idr s) # unnamed_dev_idr s\<rparr>)"
    using set_anon_super_ok [of u "next_addr s" new_super] least_free_ok(2) [of "unnamed_dev_idr s"] h m n d by (simp add: u_def v_def)
  have l: "spin_lock Sb_lock v = Some u" "fstypes u ty = Some t" using h t(1) by (simp_all add: u_def v_def)
  have "sget_retry ty (Some compare_single) set_anon_super (next_addr s) v = Some (next_addr s, with_super ty t s)"
    using n t(2,3) l h
    by (subst sget_retry.simps) (simp add: u [unfolded u_def v_def] lock_simps get_filesystem_def module_get_def upd_fstype_def with_super_def anon_super_def u_def v_def hs)
  with one show ?thesis by (simp add: sget_def)
qed

lemma dcache_wf_vfs [simp]:
  "dcache_wf (mounts_update f s) = dcache_wf s" "dcache_wf (fstypes_update g s) = dcache_wf s"
  "dcache_wf (file_systems_update l s) = dcache_wf s" "dcache_wf (super_blocks_update h s) = dcache_wf s" "dcache_wf (unnamed_dev_idr_update k s) = dcache_wf s"
  by (simp_all add: dcache_wf_def icache_wf_def inode_ok_def super_ok_def dentry_ok_def hash_ok_def alias_ok_def d_hash_def)

lemma dcache_wf_aufs_mount [simp]: "dcache_wf (aufs_mount_update f s) = dcache_wf s"
  by (simp add: dcache_wf_def icache_wf_def inode_ok_def super_ok_def dentry_ok_def hash_ok_def alias_ok_def d_hash_def)

lemma dcache_wf_super:
  assumes wf: "dcache_wf s" and b: "supers s q = Some b" and e: "s_inodes b' = s_inodes b" "s_dirty b' = s_dirty b" "s_io b' = s_io b" "s_anon b' = s_anon b"
  shows "dcache_wf (s\<lparr>supers := (supers s)(q \<mapsto> b')\<rparr>)" (is "dcache_wf ?s")
proof -
  note iwf = dcache_wfD(1) [OF wf]
  have "inode_ok ?s p i" if "inodes s p = Some i" for p i
    using icache_wfD(2) [OF iwf that] b e by (auto simp: inode_ok_def)
  moreover have "super_ok ?s r c" if "supers ?s r = Some c" for r c
    using icache_wfD(3) [OF iwf, of r] that b e by (cases "r = q") (auto simp: super_ok_def)
  ultimately have "icache_wf ?s" using iwf by (simp add: icache_wf_def)
  moreover have "dentry_ok ?s p d" if "dentries s p = Some d" for p d
    using dcache_wfD(4) [OF wf that] by (auto simp: dentry_ok_def)
  moreover have "hash_ok ?s" using dcache_wfD(5) [OF wf] by (simp add: hash_ok_def)
  moreover have "s_anon c = []" if "supers ?s r = Some c" for r c
    using dcache_wfD(7) [OF wf, of r] that b e(4) by (cases "r = q") auto
  ultimately show ?thesis using dcache_wfD(2,3,6,8,9) [OF wf] by (simp add: dcache_wf_def alias_ok_def)
qed

lemma dcache_wf_new_super:
  assumes wf: "dcache_wf s" and e: "s_inodes b = []" "s_dirty b = []" "s_io b = []" "s_anon b = []"
  shows "dcache_wf (s\<lparr>next_addr := next_addr s + 2, supers := (supers s)(next_addr s \<mapsto> b)\<rparr>)" (is "dcache_wf ?s")
proof -
  note iwf = dcache_wfD(1) [OF wf]
  have no: "supers s (next_addr s) = None"
    by (rule ccontr) (auto dest!: icache_wfD(3) [OF iwf] simp: super_ok_def)
  have "inode_ok ?s p i" if "inodes s p = Some i" for p i
    using icache_wfD(2) [OF iwf that] no by (auto simp: inode_ok_def)
  moreover have "super_ok ?s r c" if "supers ?s r = Some c" for r c
    using icache_wfD(3) [OF iwf, of r] icache_wfD(1) [OF iwf] that e by (cases "r = next_addr s") (auto simp: super_ok_def)
  ultimately have "icache_wf ?s" using iwf by (simp add: icache_wf_def)
  moreover have "dentry_ok ?s p d" if "dentries s p = Some d" for p d
    using dcache_wfD(4) [OF wf that] by (auto simp: dentry_ok_def)
  moreover have "hash_ok ?s" using dcache_wfD(5) [OF wf] by (simp add: hash_ok_def)
  moreover have "s_anon c = []" if "supers ?s r = Some c" for r c
    using dcache_wfD(7) [OF wf, of r] that e(4) by (cases "r = next_addr s") auto
  ultimately show ?thesis using dcache_wfD(2,3,6,8,9) [OF wf] by (simp add: dcache_wf_def alias_ok_def)
qed

lemma dcache_wf_root:
  assumes wf: "dcache_wf s" and n: "dentries s n = None" "0 < n" "n < next_addr s"
    and d: "d_parent d = n" "d_subdirs d = []" "d_inode d = 0" "d_unhashed d" "0 \<le> d_count d" "q_len (d_name d) = length (nm_of d)"
  shows "dcache_wf (s\<lparr>dentries := (dentries s)(n \<mapsto> d)\<rparr>)" (is "dcache_wf ?s")
proof -
  have new: "dentries ?s c = Some x" if "dentries s c = Some x" for c x using that n(1) by auto
  have "dentry_ok ?s c x" if x: "dentries ?s c = Some x" for c x
  proof (cases "c = n")
    case True
    then show ?thesis using x n d by (simp add: dentry_ok_def ext_refs_def)
  next
    case False
    then have y: "dentries s c = Some x" using x by simp
    note ok = dcache_wfD(4) [OF wf y]
    have "\<exists>z. dentries ?s (d_parent x) = Some z \<and> (d_parent x \<noteq> c \<longrightarrow> c \<in> set (d_subdirs z))"
      using dentry_okD(3) [OF ok] new by blast
    moreover have "k \<noteq> c \<and> (\<exists>z. dentries ?s k = Some z \<and> d_parent z = c)" if "k \<in> set (d_subdirs x)" for k
      using dentry_okD(6) [OF ok that] new by blast
    ultimately show ?thesis using dentry_okD(1,2,4,5,7-10) [OF ok] by (simp add: dentry_ok_def)
  qed
  moreover have "hash_ok ?s"
  proof (rule hash_ok_transfer [OF dcache_wfD(5) [OF wf]])
    fix c b x
    assume "dentries s c = Some x"
    from new [OF this] show "\<exists>y. dentries ?s c = Some y \<and> dlink x y" unfolding dlink_def by blast
  next
    fix c y
    assume "dentries ?s c = Some y" "\<not> d_unhashed y"
    with d(4) show "\<exists>x. dentries s c = Some x \<and> dlink x y"
      by (cases "c = n") (auto simp: dlink_def)
  qed (simp_all add: hash_okD(1) [OF dcache_wfD(5) [OF wf]])
  moreover have "alias_ok ?s p i" if "inodes ?s p = Some i" for p i
  proof -
    from that dcache_wfD(6) [OF wf, of p i] have "alias_ok s p i" by simp
    then show ?thesis unfolding alias_ok_def using new by metis
  qed
  ultimately show ?thesis
    using dcache_wfD(1,2,3,7,8,9) [OF wf] unfolding dcache_wf_def by auto
qed

lemma d_alloc_root_ok:
  assumes "held s = {}" and "mem_ok s (next_addr s)" and "0 < next_addr s" and "inodes s n = Some i" and "n \<noteq> 0" and "inodes s 0 = None"
  shows "d_alloc_root n s = Some (next_addr s, s\<lparr>next_addr := next_addr s + 1,
    inodes := (inodes s)(n \<mapsto> i\<lparr>i_dentry := next_addr s # i_dentry i\<rparr>),
    dentries := (dentries s)(next_addr s \<mapsto> fs_root (i_sb i) (next_addr s) n), nr_dentry := nr_dentry s + 1\<rparr>)"
proof -
  define u where "u = s\<lparr>next_addr := next_addr s + 1,
    dentries := (dentries s)(next_addr s \<mapsto> fs_root 0 0 0), nr_dentry := nr_dentry s + 1\<rparr>"
  have hs: "held_update (\<lambda>x. x - {Dcache_lock}) s = s" by (rule held_idem) (simp add: assms(1))
  have a: "d_alloc 0 \<lparr>q_hash = 0, q_len = 1, q_name = ''/''\<rparr> s = Some (next_addr s, u)"
    using assms(1-3) by (simp add: d_alloc_def kalloc_def might_sleep_def kalloc_atomic_def Let_def lock_simps hs u_def fs_root_def)
  define v where "v = u\<lparr>dentries := (dentries u)(next_addr s \<mapsto> fs_root (i_sb i) (next_addr s) 0)\<rparr>"
  have b: "upd_dentry (next_addr s) (\<lambda>d. d\<lparr>d_sb := i_sb i, d_parent := next_addr s\<rparr>) u = Some v"
    by (simp add: u_def v_def upd_dentry_eq fs_root_def del: upd_dentry_Some)
  have c: "d_instantiate (next_addr s) n v = Some (v\<lparr>inodes := (inodes v)(n \<mapsto> i\<lparr>i_dentry := next_addr s # i_dentry i\<rparr>),
           dentries := (dentries v)(next_addr s \<mapsto> (fs_root (i_sb i) (next_addr s) 0)\<lparr>d_inode := n\<rparr>)\<rparr>)"
    by (rule d_instantiate_ok) (use assms in \<open>simp_all add: v_def u_def fs_root_def\<close>)
  have "inodes u n = Some i" using assms(4) by (simp add: u_def)
  then show ?thesis using assms(3,5) a b c by (simp add: d_alloc_root_def del: upd_dentry_Some) (simp add: v_def u_def fs_root_def)
qed

lemma d_alloc_root_wf:
  assumes wf: "dcache_wf s" and i: "inodes s n = Some i" "i_dentry i = []" "0 < i_count i"
  shows "dcache_wf (s\<lparr>next_addr := next_addr s + 1, inodes := (inodes s)(n \<mapsto> i\<lparr>i_dentry := next_addr s # i_dentry i\<rparr>),
    dentries := (dentries s)(next_addr s \<mapsto> fs_root (i_sb i) (next_addr s) n), nr_dentry := nr_dentry s + 1\<rparr>)"
proof -
  define u where "u = s\<lparr>next_addr := next_addr s + 1\<rparr>"
  have p: "0 < next_addr s" by (rule icache_wfD(1) [OF dcache_wfD(1) [OF wf]])
  have "dcache_wf u" unfolding u_def by (rule dcache_wf_grow [OF wf]) simp
  then have "dcache_wf (u\<lparr>dentries := (dentries u)(next_addr s \<mapsto> fs_root (i_sb i) (next_addr s) 0)\<rparr>)" (is "dcache_wf ?v")
    by (rule dcache_wf_root) (use p dcache_wf_fresh [OF wf] in \<open>simp_all add: u_def fs_root_def d_unhashed_def\<close>)
  from d_instantiate_wf [OF this, of "next_addr s" _ n i] i
  have "dcache_wf (?v\<lparr>inodes := (inodes ?v)(n \<mapsto> i\<lparr>i_dentry := next_addr s # i_dentry i\<rparr>),
           dentries := (dentries ?v)(next_addr s \<mapsto> (fs_root (i_sb i) (next_addr s) 0)\<lparr>d_inode := n\<rparr>)\<rparr>)"
    by (simp add: u_def fs_root_def)
  then have "dcache_wf (nr_dentry_update (\<lambda>k. k + 1) (?v\<lparr>inodes := (inodes ?v)(n \<mapsto> i\<lparr>i_dentry := next_addr s # i_dentry i\<rparr>),
           dentries := (dentries ?v)(next_addr s \<mapsto> (fs_root (i_sb i) (next_addr s) 0)\<lparr>d_inode := n\<rparr>)\<rparr>))"
    by (simp only: dcache_wf_frames)
  then show ?thesis by (simp add: u_def fs_root_def)
qed

lemma root_inode_simps [simp]:
  "i_sb (root_inode sb b s) = sb" "quiet (root_inode sb b s)" "i_count (root_inode sb b s) = 1" "\<not> i_hashed (root_inode sb b s)"
  "i_dentry (root_inode sb b s) = []" "i_op (root_inode sb b s) = Simple_dir_inode_operations" "S_ISDIR (i_mode (root_inode sb b s))"
  "i_nlink (root_inode sb b s) = 1"
  by (simp_all add: root_inode_def fresh_inode_def quiet_def S_ISDIR_def)

lemma upd_super_eq: "supers s p = Some b \<Longrightarrow> upd_super p f s = Some (s\<lparr>supers := (supers s)(p \<mapsto> f b)\<rparr>)"
  by simp

lemma aufs_fill_super_ok:
  assumes wf: "dcache_wf s" and h: "held s = {}" and m: "\<And>a. mem_ok s a" and b: "supers s sb = Some b"
  shows "aufs_fill_super sb data silent s = Some (0, filled sb b s)" "dcache_wf (filled sb b s)"
proof -
  let ?b = "aufs_super b"
  define u where "u = s\<lparr>supers := (supers s)(sb \<mapsto> ?b)\<rparr>"
  have n: "0 < next_addr s" by (rule icache_wfD(1) [OF dcache_wfD(1) [OF wf]])
  have u: "dcache_wf u" "held u = {}" "next_addr u = next_addr s" "supers u sb = Some ?b" "mem_ok u a" "inodes u 0 = None" for a
    using dcache_wf_super [OF wf b, of ?b] no_inode_0 [OF dcache_wfD(1) [OF wf]] h m by (simp_all add: u_def aufs_super_def)
  define j where "j = root_inode sb b s"
  have ni: "new_inode sb u = Some (next_addr s, with_inode sb ?b (fresh_inode sb ?b s) u)"
    using new_inode_ok [OF u(2,5) _ u(4)] n by (simp add: with_inode_def u_def fresh_inode_def)
  define v where "v = with_inode sb ?b j u"
  have up: "upd_inode (next_addr s) f (with_inode sb ?b k u) = Some (with_inode sb ?b (f k) u)" for f k
    using u(3) by (simp add: upd_inode_eq with_inode_def del: upd_inode_Some)
  have i1: "simple_init_inode (S_IFDIR OR 0x1ED) (next_addr s) (with_inode sb ?b (fresh_inode sb ?b s) u) =
      Some (with_inode sb ?b ((fresh_inode sb ?b s)\<lparr>i_mode := S_IFDIR OR 0x1ED, i_uid := 0, i_gid := 0,
     i_blksize := PAGE_CACHE_SIZE, i_blocks := 0, i_atime := cur_time s, i_mtime := cur_time s, i_ctime := cur_time s\<rparr>) u)"
    unfolding simple_init_inode_def up by (simp add: with_inode_def u_def)
  have i2: "upd_inode (next_addr s) (\<lambda>i. i\<lparr>i_op := Simple_dir_inode_operations, i_fop := Simple_dir_operations\<rparr>)
      (with_inode sb ?b ((fresh_inode sb ?b s)\<lparr>i_mode := S_IFDIR OR 0x1ED, i_uid := 0, i_gid := 0,
     i_blksize := PAGE_CACHE_SIZE, i_blocks := 0, i_atime := cur_time s, i_mtime := cur_time s, i_ctime := cur_time s\<rparr>) u) = Some v"
    unfolding up v_def j_def root_inode_def by simp
  have wv: "dcache_wf v" unfolding v_def by (rule with_inode_dcache [OF u(1,4)]) (simp_all add: j_def)
  have v: "held v = {}" "next_addr v = next_addr s + 1" "inodes v (next_addr s) = Some j" "inodes v 0 = None" "mem_ok v a" for a
    using u n by (simp_all add: v_def with_inode_def)
  define w where "w = v\<lparr>next_addr := next_addr v + 1, inodes := (inodes v)(next_addr s \<mapsto> j\<lparr>i_dentry := next_addr v # i_dentry j\<rparr>),
    dentries := (dentries v)(next_addr v \<mapsto> fs_root (i_sb j) (next_addr v) (next_addr s)), nr_dentry := nr_dentry v + 1\<rparr>"
  have r: "d_alloc_root (next_addr s) v = Some (next_addr s + 1, w)" unfolding w_def v(2) [symmetric]
    by (rule d_alloc_root_ok) (use v n in simp_all)
  have ww: "dcache_wf w" unfolding w_def by (rule d_alloc_root_wf [OF wv v(3)]) (simp_all add: j_def)
  have bw: "supers w sb = Some (?b\<lparr>s_inodes := next_addr s # s_inodes ?b\<rparr>)" using u(3) by (simp add: w_def v_def with_inode_def)
  have f: "w\<lparr>supers := (supers w)(sb \<mapsto> ?b\<lparr>s_inodes := next_addr s # s_inodes ?b, s_root := next_addr s + 1\<rparr>)\<rparr> = filled sb b s"
    by (simp add: w_def v_def with_inode_def u_def filled_def Let_def j_def aufs_super_def)
  show "dcache_wf (filled sb b s)" unfolding f [symmetric] by (rule dcache_wf_super [OF ww bw]) simp_all
  have s0: "upd_super sb (\<lambda>b. b\<lparr>s_blocksize := PAGE_CACHE_SIZE, s_blocksize_bits := PAGE_CACHE_SHIFT,
            s_magic := AUFS_MAGIC, s_op := Simple_s_ops, s_time_gran := 1\<rparr>) s = Some u"
    using b by (simp add: u_def aufs_super_def)
  have s1: "upd_super sb (\<lambda>b. b\<lparr>s_root := next_addr s + 1\<rparr>) w = Some (filled sb b s)"
    unfolding upd_super_eq [OF bw] using f by simp
  show "aufs_fill_super sb data silent s = Some (0, filled sb b s)"
    unfolding aufs_fill_super_def simple_fill_super_def s0 bind.bind_lunit using n
    by (simp add: ni i1 i2 r s1 debug_files_def del: upd_inode_Some PAGE_CACHE_SIZE_def S_IFDIR_def)
qed

lemma sync_inodes_clean:
  assumes "held s = {}" and b: "supers s sb = Some b" "s_dirty b = []" "s_io b = []"
  shows "sync_inodes_sb sb wait s = Some s"
proof -
  define u where "u = held_update (insert Inode_lock) s"
  have "b\<lparr>s_dirty := [], s_io := []\<rparr> = b" using b(2,3) by (cases b) simp
  then have "(supers u)(sb \<mapsto> b\<lparr>s_dirty := [], s_io := []\<rparr>) = supers u" using b(1) by (simp add: u_def fun_upd_idem)
  then have e: "u\<lparr>supers := (supers u)(sb \<mapsto> b\<lparr>s_dirty := [], s_io := []\<rparr>)\<rparr> = u" by simp
  have bu: "supers u sb = Some b" using b(1) by (simp add: u_def)
  have "sync_sb_loop sb m n u = Some u" for m n using bu b(3) by (subst sync_sb_loop.simps) simp
  then have "sync_sb_inodes sb m n u = Some u" for m n
    by (simp only: sync_sb_inodes_def upd_super_eq [OF bu] b(2,3) append_Nil e bind.bind_lunit)
  moreover have "spin_lock Inode_lock s = Some u" "spin_unlock Inode_lock u = Some s"
    using assms(1) by (simp_all add: u_def lock_simps)
  ultimately show ?thesis by (simp add: sync_inodes_sb_def Let_def)
qed

lemma fsync_clean:
  assumes "held s = {}" and b: "supers s sb = Some b" "s_dirty b = []" "s_io b = []" "\<not> s_lock b"
  shows "fsync_super sb s = Some s"
proof -
  define u where "u = s\<lparr>supers := (supers s)(sb \<mapsto> b\<lparr>s_lock := True\<rparr>)\<rparr>"
  have l: "lock_super sb s = Some u" using assms(1) b(1,4) by (simp add: lock_super_def might_sleep_def u_def)
  have "b\<lparr>s_lock := False\<rparr> = b" using b(4) by (cases b) simp
  then have "unlock_super sb u = Some s" using b(1) by (simp add: unlock_super_def u_def fun_upd_idem)
  with l show ?thesis by (simp add: fsync_super_def sync_inodes_clean [OF assms(1) b(1-3)])
qed

lemma remount_clean:
  assumes h: "held s = {}" and u: "dentry_unused s = []" and b: "supers s sb = Some b" "s_dirty b = []" "s_io b = []" "\<not> s_lock b"
  shows "do_remount_sb sb 0 force s = Some (0, s\<lparr>supers := (supers s)(sb \<mapsto> b\<lparr>s_flags := s_flags b AND NOT MS_RMT_MASK\<rparr>)\<rparr>)"
proof -
  have "shrink_sb_repeat sb v = Some v" if "dentry_unused v = []" for v :: "'a vfs_scheme"
    using that by (subst shrink_sb_repeat.simps) simp
  then have "shrink_dcache_sb sb s = Some s" using h u by (simp add: shrink_dcache_sb_def lock_simps)
  then show ?thesis using b by (simp add: do_remount_sb_def fsync_clean [OF h b])
qed

lemma get_fs_type_ok:
  assumes r: "registered s xs" and ty: "ty \<in> set xs" "fstypes s ty = Some t" "fs_owner t = 0" and h: "File_systems_lock \<notin> held s"
  shows "get_fs_type (fs_name t) s = Some (ty, s)"
proof -
  define u where "u = held_update (insert File_systems_lock) s"
  have ru: "registered u xs" using r by (simp add: u_def registered_def fs_links_def fs_named_def)
  have nm: "fs_named u ty = Some (fs_name t)" "fstypes u ty = Some t" using ty(2) by (simp_all add: u_def fs_named_def)
  have "Some (fs_name t) \<in> fs_named u ` set xs" using nm(1) ty(1) by force
  then obtain l x where l: "find_filesystem (fs_name t) u = Some l" "read_link l u = Some x" "x \<in> set xs" "fs_named u x = Some (fs_name t)"
    using find_filesystem_hit [OF ru] by metis
  have x: "x = ty" using ru l(3,4) ty(1) nm(1) by (auto simp: registered_def distinct_map inj_on_def)
  have "ty \<noteq> 0" using fs_chain_dom ru ty(1) unfolding registered_def by blast
  then show ?thesis using h l x nm ty(3)
    by (simp add: get_fs_type_def u_def [symmetric] try_module_get_def) (simp add: u_def lock_simps)
qed

lemma get_sb_single_fresh:
  assumes wf: "dcache_wf s" and h: "held s = {}" and m: "\<And>a. mem_ok s a" and t: "fstypes s ty = Some t" "fs_supers t = []" "fs_owner t = 0"
    and d: "length (unnamed_dev_idr s) < 2 ^ 20" and u: "dentry_unused s = []"
  shows "get_sb_single ty 0 data aufs_fill_super s = Some (next_addr s, single ty t s)" "dcache_wf (single ty t s)"
proof -
  let ?p = "next_addr s" and ?b = "anon_super ty t s"
  have n: "0 < ?p" by (rule icache_wfD(1) [OF dcache_wfD(1) [OF wf]])
  define w where "w = with_super ty t s"
  have g: "sget ty (Some compare_single) set_anon_super s = Some (?p, w)" unfolding w_def by (rule sget_fresh [OF h m n t d])
  have b0: "s_root ?b = 0" "s_flags ?b = 0" "s_inodes ?b = []" "s_dirty ?b = []" "s_io ?b = []" "s_anon ?b = []" "\<not> s_lock ?b"
    by (simp_all add: anon_super_def new_super_def)
  have w: "supers w ?p = Some ?b" "held w = {}" "mem_ok w a" "next_addr w = ?p + 2" "dentry_unused w = []" for a
    using h m u by (simp_all add: w_def with_super_def)
  have ww: "dcache_wf w" using dcache_wf_new_super [OF wf b0(3-6)] by (simp add: w_def with_super_def)
  have "?b\<lparr>s_flags := 0\<rparr> = ?b" using b0(2) by (cases ?b) simp
  then have fl: "upd_super ?p (\<lambda>b. b\<lparr>s_flags := 0\<rparr>) w = Some w"
    unfolding upd_super_eq [OF w(1)] using w(1) by (simp add: fun_upd_idem)
  define f where "f = filled ?p ?b w"
  note fill = aufs_fill_super_ok [OF ww w(2,3,1), folded f_def]
  let ?c = "(aufs_super ?b)\<lparr>s_inodes := [?p + 2], s_root := ?p + 3\<rparr>"
  have f: "supers f ?p = Some ?c" "held f = {}" "dentry_unused f = []"
    using w b0(3) by (simp_all add: f_def filled_def Let_def)
  define g where "g = f\<lparr>supers := (supers f)(?p \<mapsto> ?c\<lparr>s_flags := MS_ACTIVE\<rparr>)\<rparr>"
  have ac: "upd_super ?p (\<lambda>b. b\<lparr>s_flags := s_flags b OR MS_ACTIVE\<rparr>) f = Some g"
    unfolding upd_super_eq [OF f(1)] using b0(2) by (simp add: g_def aufs_super_def)
  have gp: "supers g ?p = Some (?c\<lparr>s_flags := MS_ACTIVE\<rparr>)" "held g = {}" "dentry_unused g = []" using f by (simp_all add: g_def)
  have rm: "do_remount_sb ?p 0 False g = Some (0, g)"
    using remount_clean [OF gp(2,3,1), of False] b0 by (simp add: aufs_super_def g_def)
  have sg: "single ty t s = g" by (simp add: single_def Let_def g_def f_def w_def)
  have "dcache_wf g" unfolding g_def by (rule dcache_wf_super [OF fill(2) f(1)]) simp_all
  then show "dcache_wf (single ty t s)" by (simp only: sg)
  have "\<not> IS_ERR ?p" using n by (simp add: IS_ERR_def)
  then show "get_sb_single ty 0 data aufs_fill_super s = Some (next_addr s, single ty t s)"
    unfolding sg by (simp add: get_sb_single_def g w(1) b0(1) fl fill(1) ac rm del: upd_super_Some MS_ACTIVE_def)
qed

lemma single_simps:
  "next_addr (single ty t s) = next_addr s + 4" "held (single ty t s) = held s" "mem_ok (single ty t s) = mem_ok s"
  "cur_caps (single ty t s) = cur_caps s" "mounts (single ty t s) = mounts s" "file_systems (single ty t s) = file_systems s"
  "fstypes (single ty t s) = (fstypes s)(ty \<mapsto> t\<lparr>fs_supers := [next_addr s]\<rparr>)"
  "supers (single ty t s) (next_addr s) = Some ((aufs_super (anon_super ty t s))\<lparr>s_inodes := [next_addr s + 2],
       s_root := next_addr s + 3, s_flags := MS_ACTIVE\<rparr>)"
  "inodes (single ty t s) (next_addr s + 2) = Some ((root_inode (next_addr s) (anon_super ty t s) (with_super ty t s))\<lparr>i_dentry := [next_addr s + 3]\<rparr>)"
  "dentries (single ty t s) = (dentries s)(next_addr s + 3 \<mapsto> fs_root (next_addr s) (next_addr s + 3) (next_addr s + 2))"
  by (simp_all add: single_def filled_def with_super_def Let_def add.commute)

text \<open>
  The mount of a type that has no superblock yet, with the \<^verbatim>\<open>get_sb_single\<close> of the kernel as \<^verbatim>\<open>mount_single\<close>: the state
  then holds an empty aufs below a new root.
\<close>

lemma kern_mount_live:
  assumes wf: "dcache_wf s" and h: "held s = {}" and m: "\<And>a. mem_ok s a" and c: "CAP_DAC_OVERRIDE \<in> cur_caps s"
    and r: "registered s xs" and ty: "ty \<in> set xs" and t: "fstypes s ty = Some t" "fs_supers t = []" "fs_owner t = 0"
    and d: "length (unnamed_dev_idr s) < 2 ^ 20" and u: "dentry_unused s = []"
  shows "\<exists>root mnt s'. kern_mount (aufs_get_sb get_sb_single) ty s = Some (mnt, s') \<and> \<not> IS_ERR mnt \<and>
    aufs_live root (s'\<lparr>aufs_mount := mnt\<rparr>) \<and> (\<forall>nm c. \<not> child_of s' root nm c)"
proof -
  let ?m = "next_addr s"
  have n: "0 < ?m" by (rule icache_wfD(1) [OF dcache_wfD(1) [OF wf]])
  have g: "get_fs_type (fs_name t) s = Some (ty, s)" by (rule get_fs_type_ok [OF r ty t(1,3)]) (simp add: h)
  define a where "a = s\<lparr>next_addr := ?m + 2, mounts := (mounts s)(?m \<mapsto> new_mnt (fs_name t))\<rparr>"
  have al: "alloc_vfsmnt (Some (fs_name t)) s = Some (?m, a)" unfolding a_def by (rule alloc_vfsmnt_ok [OF h m n])
  have wa: "dcache_wf a" using dcache_wf_grow [OF wf, of 2] by (simp add: a_def)
  have a: "held a = {}" "mem_ok a x" "fstypes a ty = Some t" "length (unnamed_dev_idr a) < 2 ^ 20" "dentry_unused a = []" for x
    using h m t(1) d u by (simp_all add: a_def)
  define b where "b = single ty t a"
  note sg = get_sb_single_fresh [OF wa a(1,2,3) t(2,3) a(4,5), folded b_def]
  let ?p = "next_addr a" and ?n = "next_addr a + 2" and ?r = "next_addr a + 3"
  have na: "0 < ?p" "?p = ?m + 2" using n by (simp_all add: a_def)
  note bs = single_simps [of ty t a, folded b_def]
  let ?B = "(aufs_super (anon_super ty t a))\<lparr>s_inodes := [?n], s_root := ?r, s_flags := MS_ACTIVE\<rparr>"
  let ?d = "fs_root ?p ?r ?n"
  define e where "e = b\<lparr>dentries := (dentries b)(?r \<mapsto> ?d\<lparr>d_count := 2\<rparr>)\<rparr>"
  have bd: "dentries b ?r = Some ?d" using bs(10) by simp
  have dg: "dget ?r b = Some e" using na(1) bd by (simp add: dget_def e_def fs_root_def)
  have we: "dcache_wf e" using dget_wf [OF sg(2) bd] by (simp add: e_def fs_root_def)
  define M where "M = (new_mnt (fs_name t))\<lparr>mnt_sb := ?p, mnt_root := ?r, mnt_mountpoint := ?r, mnt_parent := ?m\<rparr>"
  define f where "f = e\<lparr>mounts := (mounts e)(?m \<mapsto> M), supers := (supers e)(?p \<mapsto> ?B\<lparr>s_umount := Free\<rparr>)\<rparr>"
  have me: "mounts e ?m = Some (new_mnt (fs_name t))" using bs(5) by (simp add: e_def a_def)
  have se: "supers e ?p = Some ?B" using bs(8) by (simp add: e_def)
  have um: "upd_mount ?m (\<lambda>m. m\<lparr>mnt_sb := ?p, mnt_root := ?r, mnt_mountpoint := ?r, mnt_parent := ?m\<rparr>) e =
      Some (e\<lparr>mounts := (mounts e)(?m \<mapsto> M)\<rparr>)" using me by (simp add: upd_mount_def M_def)
  have uw: "up_write ?p (e\<lparr>mounts := (mounts e)(?m \<mapsto> M)\<rparr>) = Some f" using se by (simp add: up_write_def f_def)
  have pf: "put_filesystem ty f = Some f" using bs(7) t(3) by (simp add: put_filesystem_def f_def e_def module_put_def)
  have ne: "\<not> IS_ERR ?p" "\<not> IS_ERR ?m" using n na(1) by (simp_all add: IS_ERR_def)
  have ty0: "ty \<noteq> 0" using fs_chain_dom r ty unfolding registered_def by blast
  have km: "kern_mount (aufs_get_sb get_sb_single) ty s = Some (?m, f)"
    using n ne ty0 by (simp add: kern_mount_def t(1) do_kern_mount_def g al aufs_get_sb_def sg(1) bs(8) dg um uw pf)
  have wf': "dcache_wf f" using dcache_wf_super [of "e\<lparr>mounts := (mounts e)(?m \<mapsto> M)\<rparr>" ?p ?B "?B\<lparr>s_umount := Free\<rparr>"] we se by (simp add: f_def)
  have F: "held f = {}" "mem_ok f x" "CAP_DAC_OVERRIDE \<in> cur_caps f" "mounts f ?m = Some M" "supers f ?p = Some (?B\<lparr>s_umount := Free\<rparr>)"
      "dentries f ?r = Some (?d\<lparr>d_count := 2\<rparr>)"
      "inodes f ?n = Some ((root_inode ?p (anon_super ty t a) (with_super ty t a))\<lparr>i_dentry := [?r]\<rparr>)" for x
    using a bs c by (simp_all add: f_def e_def a_def)
  have "dir_at f ?r" using F(5-7) by (simp add: dir_at_def fs_root_def)
  then have lv: "aufs_live ?r (f\<lparr>aufs_mount := ?m\<rparr>)"
    using wf' F n na(1) by (simp add: aufs_live_def dir_at_def M_def)
  have "\<not> child_of f ?r nm x" for nm x
  proof
    assume "child_of f ?r nm x"
    then obtain y where y: "dentries f x = Some y" "d_parent y = ?r" "\<not> d_unhashed y" by (auto simp: child_of_def)
    then have "x \<noteq> ?r" using F(6) by (auto simp: fs_root_def d_unhashed_def)
    then have sx: "dentries s x = Some y" using y(1) bs(10) by (simp add: f_def e_def a_def)
    obtain z where z: "dentries s ?r = Some z" using dentry_okD(3) [OF dcache_wfD(4) [OF wf sx]] y(2) by auto
    show False using dentry_okD(2) [OF dcache_wfD(4) [OF wf z]] na(2) by simp
  qed
  with km ne(2) lv show ?thesis by blast
qed

lemma register_type:
  assumes "register_filesystem fs s = Some (0, s')" and "fstypes s fs = Some t" and "fs_owner t = 0"
  shows "\<exists>t'. fstypes s' fs = Some t' \<and> fs_supers t' = [] \<and> fs_owner t' = 0"
  using assms
  by (auto simp: register_filesystem_def upd_fstype_def write_link_def spin_lock_def spin_unlock_def
      split: if_splits fs_link.splits option.splits Option.bind_splits)

lemma aufs_init_mounted:
  assumes wf: "dcache_wf s" and h: "held s = {}" and m: "\<And>a. mem_ok s a" and c: "CAP_DAC_OVERRIDE \<in> cur_caps s"
    and r: "registered s xs" and fr: "fs_fresh (aufs_type_at s) s" and t: "fstypes s (aufs_type_at s) = Some t" "fs_owner t = 0"
    and d: "length (unnamed_dev_idr s) < 2 ^ 20" and u: "dentry_unused s = []"
  shows "\<exists>root s' w m. aufs_init (kern_mount (aufs_get_sb get_sb_single)) s = Some (0, s') \<and> aufs_live root s' \<and>
    (\<forall>nm c. child_of s' root nm c \<longleftrightarrow> nm = ''woman_star'' \<and> c = w \<or> nm = ''man_star'' \<and> c = m) \<and>
    holds_files s' w {''lbb'', ''fbb'', ''lj1''} \<and> holds_files s' m {''ldh'', ''lcw'', ''jw''}"
proof -
  have "File_systems_lock \<notin> held s" using h by simp
  then obtain s0 where s0: "register_filesystem (aufs_type_at s) s = Some (0, s0)" "registered s0 (xs @ [aufs_type_at s])" "only_types s s0"
    using register_fresh [OF r _ fr] by blast
  obtain f g where e: "s0 = s\<lparr>fstypes := f, file_systems := g\<rparr>" using s0(3) by (auto simp: only_types_def)
  have s: "dcache_wf s0" "held s0 = {}" "mem_ok s0 a" "CAP_DAC_OVERRIDE \<in> cur_caps s0" "length (unnamed_dev_idr s0) < 2 ^ 20"
      "dentry_unused s0 = []" "aufs_type_at s0 = aufs_type_at s" for a
    using wf h m c d u by (simp_all add: e)
  obtain t0 where t0: "fstypes s0 (aufs_type_at s) = Some t0" "fs_supers t0 = []" "fs_owner t0 = 0"
    using register_type [OF s0(1) t] by blast
  have "aufs_type_at s \<in> set (xs @ [aufs_type_at s])" by simp
  note km = kern_mount_live [OF s(1-4) s0(2) this t0 s(5,6)]
  obtain root mnt s1 where k: "kern_mount (aufs_get_sb get_sb_single) (aufs_type_at s0) s0 = Some (mnt, s1)" "\<not> IS_ERR mnt"
      "aufs_live root (s1\<lparr>aufs_mount := mnt\<rparr>)" "\<And>nm c. \<not> child_of s1 root nm c"
    using km unfolding s(7) by blast
  have "\<exists>s' w m. aufs_init (kern_mount (aufs_get_sb get_sb_single)) s = Some (0, s') \<and> aufs_live root s' \<and>
    (\<forall>nm c. child_of s' root nm c \<longleftrightarrow> nm = ''woman_star'' \<and> c = w \<or> nm = ''man_star'' \<and> c = m) \<and>
    holds_files s' w {''lbb'', ''fbb'', ''lj1''} \<and> holds_files s' m {''ldh'', ''lcw'', ''jw''}"
    by (rule aufs_init_tree [where km = "kern_mount (aufs_get_sb get_sb_single)", OF s0(1) k])
  then show ?thesis by (rule exI [of _ root])
qed

end
