(* ===== verification/Aufs_Client.thy ===== *)
theory Aufs_Client
  imports Aufs_Mount
begin

text \<open>
  The caches and aufs as seen by their users: sequences of creations, lookups, links, unlinks, writes and references
  taken and dropped, in any order. The locale \<open>safe_operations\<close> is the contract that every operation returns and keeps an
  invariant wherever the obligations of the caller are met; it is interpreted on the code. Nothing here models code.
\<close>

text \<open>
  Operations performed one after the other, each where it is allowed: \<open>run p a s ops s'\<close> leads from \<open>s\<close> through \<open>ops\<close> to \<open>s'\<close>.
\<close>

inductive run :: "('op \<Rightarrow> 's \<Rightarrow> 's option) \<Rightarrow> ('op \<Rightarrow> 's \<Rightarrow> bool) \<Rightarrow> 's \<Rightarrow> 'op list \<Rightarrow> 's \<Rightarrow> bool"
  for p :: "'op \<Rightarrow> 's \<Rightarrow> 's option" and a :: "'op \<Rightarrow> 's \<Rightarrow> bool" where
  run_done: "run p a s [] s"
| run_step: "a op s \<Longrightarrow> p op s = Some t \<Longrightarrow> run p a t ops u \<Longrightarrow> run p a s (op # ops) u"

text \<open>
  What a user of the caches does: create an entry of aufs, look a name up, take and drop a reference, link and unlink
  a name, write to a file. \<open>allowed\<close> is what the caller answers for: the objects exist, references that are dropped are
  held, names are legal and memory is available.
\<close>

datatype client_op =
    Create string "32 word" ptr ptr "file_operations option"
  | Lookup string ptr
  | Take ptr
  | Drop ptr
  | Link ptr ptr ptr
  | Unlink ptr ptr
  | Write ptr

fun perform :: "client_op \<Rightarrow> 'a aufs_scheme \<Rightarrow> 'a aufs_scheme option" where
  "perform (Create nm mode r data fops) s = map_option snd (aufs_create_file nm mode r data fops s)"
| "perform (Lookup nm r) s = map_option snd (lookup_one_len i_op_lookup nm r (length nm) s)"
| "perform (Take p) s = dget p s"
| "perform (Drop p) s = dput p s"
| "perform (Link old dir p) s = map_option snd (simple_link old dir p s)"
| "perform (Unlink dir p) s = map_option snd (simple_unlink dir p s)"
| "perform (Write buf) s = map_option snd (aufs_file_write 0 buf 1 0 s)"

definition searchable :: "string \<Rightarrow> ptr \<Rightarrow> 'a aufs_scheme \<Rightarrow> bool" where
  "searchable nm r s \<longleftrightarrow> plain_name nm \<and> length nm \<le> 255 \<and> d_alloc_mem (mk_qstr nm) s \<and>
     (\<exists>q i b. dentries s r = Some q \<and> 0 < d_count q \<and> inodes s (d_inode q) = Some i \<and> i_op i = Simple_dir_inode_operations \<and>
       supers s (i_sb i) = Some b \<and> permission (d_inode q) MAY_EXEC s = Some 0)"

fun allowed :: "client_op \<Rightarrow> 'a aufs_scheme \<Rightarrow> bool" where
  "allowed (Create nm mode r data fops) s \<longleftrightarrow> searchable nm r s \<and> creatable mode \<and> mem_ok s (next_addr s + name_blocks (mk_qstr nm)) \<and>
     (\<forall>c d. child_of s r nm c \<and> dentries s c = Some d \<longrightarrow> d_inode d \<noteq> 0)"
| "allowed (Lookup nm r) s \<longleftrightarrow> searchable nm r s"
| "allowed (Take p) s \<longleftrightarrow> (\<exists>d. dentries s p = Some d \<and> d_count d \<noteq> 0)"
| "allowed (Drop p) s \<longleftrightarrow> (\<exists>d. dentries s p = Some d \<and> 0 < ext_refs d)"
| "allowed (Link old dir p) s \<longleftrightarrow> (\<exists>od i di d. dentries s old = Some od \<and> inodes s (d_inode od) = Some i \<and> inodes s dir = Some di \<and>
     dir \<noteq> d_inode od \<and> dentries s p = Some d \<and> d_inode d = 0 \<and> d_count d \<noteq> 0)"
| "allowed (Unlink dir p) s \<longleftrightarrow> (\<exists>d i di. dentries s p = Some d \<and> 0 < ext_refs d \<and> inodes s dir = Some di \<and>
     inodes s (d_inode d) = Some i \<and> dir \<noteq> d_inode d)"
| "allowed (Write buf) s \<longleftrightarrow> buf \<in> dom (umem s)"

inductive_cases run_NilE: "run p a s [] u"
inductive_cases run_ConsE: "run p a s (op # ops) u"

section \<open>Operations that keep an invariant\<close>

text \<open>The contract of a set of operations: where the invariant holds, an allowed operation returns and keeps it.\<close>

locale safe_operations =
  fixes p :: "'op \<Rightarrow> 's \<Rightarrow> 's option" and a :: "'op \<Rightarrow> 's \<Rightarrow> bool" and inv :: "'s \<Rightarrow> bool"
  assumes keeps: "inv s \<Longrightarrow> a op s \<Longrightarrow> \<exists>t. p op s = Some t \<and> inv t"
begin

lemma run_keeps: "run p a s ops u \<Longrightarrow> inv s \<Longrightarrow> inv u"
proof (induction rule: run.induct)
  case (run_step op s t ops u)
  then show ?case using keeps by fastforce
qed

lemma run_not_stuck: "run p a s ops u \<Longrightarrow> inv s \<Longrightarrow> a op u \<Longrightarrow> \<exists>t. p op u = Some t \<and> run p a s (ops @ [op]) t"
proof (induction rule: run.induct)
  case (run_done s)
  then obtain t where t: "p op s = Some t" using keeps by blast
  have "run p a s [op] t" by (rule run.run_step) (use run_done(2) t in \<open>auto intro: run.run_done\<close>)
  then show ?case using t by simp
next
  case (run_step op' s t ops u)
  then have "inv t" using keeps by fastforce
  then show ?case using run_step run.run_step [of a op' s p t] by fastforce
qed

end

section \<open>The caches under their users\<close>

lemma aufs_wf_enabled [simp]: "dcache_wf (enabled_update f s) = dcache_wf s"
  by (simp add: dcache_wf_def icache_wf_def inode_ok_def super_ok_def dentry_ok_def hash_ok_def alias_ok_def d_hash_def)

lemma lookup_keeps:
  assumes wf: "dcache_wf s" and h: "held s = {}" and a: "searchable nm r s"
  shows "\<exists>t. perform (Lookup nm r) s = Some t \<and> dcache_wf t \<and> held t = {}"
proof -
  obtain q i where q: "plain_name nm" "length nm \<le> 255" "d_alloc_mem (mk_qstr nm) s" "dentries s r = Some q" "0 < d_count q"
      "inodes s (d_inode q) = Some i" "i_op i = Simple_dir_inode_operations" "permission (d_inode q) MAY_EXEC s = Some 0"
    using a unfolding searchable_def by blast
  show ?thesis
  proof (cases "\<exists>c. child_of s r nm c")
    case True
    then obtain c d where c: "child_of s r nm c" "dentries s c = Some d" by (auto simp: child_of_def)
    show ?thesis using lookup_hash_hit [OF wf h q(4) _ _ c(2) q(8), of "mk_qstr nm"] c(1) dget_wf [OF wf c(2)] h
      by (simp add: lookup_one_len_plain [OF q(1)])
  next
    case False
    then have none: "\<And>c. \<not> child_of s r (q_name (mk_qstr nm)) c" by simp
    show ?thesis using lookup_hash_miss [OF wf h q(4,5) _ _ none q(6,7,8,3)] with_neg_wf [OF wf h q(4) _ none] q(2) h
      by (simp add: lookup_one_len_plain [OF q(1)] with_neg_def)
  qed
qed

lemma create_keeps:
  assumes wf: "dcache_wf s" and h: "held s = {}" and a: "allowed (Create nm mode r data fops) s"
  shows "\<exists>t. perform (Create nm mode r data fops) s = Some t \<and> dcache_wf t \<and> held t = {}"
proof -
  have "searchable nm r s" using a by simp
  then obtain q i b where q: "plain_name nm" "length nm \<le> 255" "d_alloc_mem (mk_qstr nm) s" "dentries s r = Some q" "0 < d_count q"
      "inodes s (d_inode q) = Some i" "i_op i = Simple_dir_inode_operations" "supers s (i_sb i) = Some b" "permission (d_inode q) MAY_EXEC s = Some 0"
    unfolding searchable_def by blast
  have m: "creatable mode" "mem_ok s (next_addr s + name_blocks (mk_qstr nm))" using a by simp_all
  show ?thesis
  proof (cases "\<exists>c. child_of s r nm c")
    case True
    then obtain c d where c: "child_of s r nm c" "dentries s c = Some d" by (auto simp: child_of_def)
    then have "d_inode d \<noteq> 0" using a by simp
    note c = c this
    show ?thesis using aufs_create_file_exists [OF wf h q(4,1) c q(9)] dget_wf [OF wf c(2)] h by simp
  next
    case False
    then have none: "\<And>c. \<not> child_of s r nm c" by blast
    obtain s' where "aufs_create_file nm mode r data fops s = Some (next_addr s, s')" "dcache_wf s'" "aufs_frame s s'"
      using aufs_create_file_ok [OF wf h q(4,5,1,2) none q(6-9,3) m(2,1), of data fops] by blast
    then show ?thesis using h by (simp add: aufs_frame_def)
  qed
qed

lemma client_keeps:
  assumes wf: "dcache_wf s" and h: "held s = {}" and a: "allowed op s"
  shows "\<exists>t. perform op s = Some t \<and> dcache_wf t \<and> held t = {}"
proof (cases op)
  case (Create nm mode r data fops)
  then show ?thesis using create_keeps [OF wf h] a by blast
next
  case (Lookup nm r)
  then show ?thesis using lookup_keeps [OF wf h] a by simp
next
  case (Take p)
  then obtain d where d: "dentries s p = Some d" "d_count d \<noteq> 0" using a by auto
  have "dget p s = Some (s\<lparr>dentries := (dentries s)(p \<mapsto> d\<lparr>d_count := d_count d + 1\<rparr>)\<rparr>)"
    using d dentry_okD(1) [OF dcache_wfD(4) [OF wf d(1)]] by (simp add: dget_def upd_dentry_eq del: upd_dentry_Some)
  then show ?thesis using Take dget_wf [OF wf d(1)] h by simp
next
  case (Drop p)
  then obtain d where d: "dentries s p = Some d" "0 < ext_refs d" using a by auto
  show ?thesis using dput_total [OF wf h d] Drop by (auto simp: dput_post_def)
next
  case (Link old dir p)
  then obtain od i di d where "dentries s old = Some od" "inodes s (d_inode od) = Some i" "inodes s dir = Some di"
     "dir \<noteq> d_inode od" "dentries s p = Some d" "d_inode d = 0" "d_count d \<noteq> 0" using a by auto
  from simple_link_ok [OF wf h this] show ?thesis using Link by auto
next
  case (Unlink dir p)
  then obtain d i di where "dentries s p = Some d" "0 < ext_refs d" "inodes s dir = Some di"
     "inodes s (d_inode d) = Some i" "dir \<noteq> d_inode d" using a by auto
  from simple_unlink_safe [OF wf h this] show ?thesis using Unlink by (auto simp: dput_post_def)
next
  case (Write buf)
  then show ?thesis using a wf h by (auto simp: aufs_file_write_def Let_def)
qed

interpretation client: safe_operations perform allowed "\<lambda>s. dcache_wf s \<and> held s = {}"
  by unfold_locales (use client_keeps in blast)

end
