(* ===== verification/Boot_State.thy ===== *)
theory Boot_State
  imports List_Head Aufs_Client
begin

text \<open>
  A concrete machine on which the theorems are applied: a kernel that has just come up, with the
  file-system type of aufs in memory and not yet registered. Addresses below 100 are taken by what is
  part of the kernel image; the type of aufs is at 5. Nothing here models code.
\<close>

definition slab_inode :: inode where
  "slab_inode = \<lparr>i_dentry = [], i_ino = 0, i_count = 0, i_mode = 0, i_nlink = 0, i_uid = 0, i_gid = 0,
     i_rdev = 0, i_size = 0, i_atime = (9, 9), i_mtime = (9, 9), i_ctime = (9, 9), i_blkbits = 0,
     i_blksize = 0, i_blocks = 0, i_bytes = 0, i_sem = False, i_op = Empty_iops, i_fop = Empty_fops,
     i_sb = 0, i_nrpages = 0, i_generation = 0, i_hashed = False, i_state = 0, i_flags = 0,
     i_writecount = 0, i_private = 0\<rparr>"

definition boot_super :: super_block where
  "boot_super = \<lparr>s_dev = 0, s_blocksize = 4096, s_blocksize_bits = 12, s_dirt = False, s_maxbytes = 0,
     s_type = 5, s_op = Simple_s_ops, s_flags = MS_ACTIVE, s_magic = 0, s_root = 0, s_umount = Free,
     s_lock = False, s_count = S_BIAS, s_active = 1, s_inodes = [], s_dirty = [], s_io = [],
     s_anon = [], s_files = [], s_bdev = 0, s_id = ''aufs'', s_time_gran = 1\<rparr>"

definition boot :: aufs where
  "boot = \<lparr>next_addr = 100, mem_ok = (\<lambda>_. True), held = {}, cur_time = (1, 1), cur_fsuid = 0,
     cur_fsgid = 0, cur_groups = [], cur_caps = {1, 2, 3},
     supers = Map.empty, inodes = Map.empty, inode_slab = (\<lambda>_. slab_inode), inode_in_use = [],
     inode_unused = [], inode_hashtable = (\<lambda>_. []), i_hash_shift = 4, i_hash_mask = 15,
     nr_inodes = 0, nr_unused_inodes = 0, last_ino = 0, iunique_counter = 0,
     cap_writeback_dirty = True,
     dentries = Map.empty, dentry_slab = (\<lambda>_. []), dentry_hashtable = (\<lambda>_. []), d_hash_shift = 4,
     d_hash_mask = 15, dentry_unused = [], nr_dentry = 0, nr_unused_dentries = 0, rename_seq = 0,
     resched_at = (\<lambda>_. False), ticks = 0,
     fstypes = [5 \<mapsto> aufs_type], file_systems = 0, modules = Map.empty, super_blocks = [],
     unnamed_dev_idr = [], mounts = Map.empty, mount_hashtable = (\<lambda>_. []), m_hash_bits = 4,
     m_hash_mask = 15, files = Map.empty, umem = Map.empty, enabled = 1, aufs_mount = 0,
     aufs_type_at = 5\<rparr>"

text \<open>The same machine with a superblock at 50 and one inode in use at 60.\<close>

definition one_inode :: aufs where
  "one_inode = boot\<lparr>supers := [50 \<mapsto> boot_super\<lparr>s_inodes := [60]\<rparr>],
     inodes := [60 \<mapsto> slab_inode\<lparr>i_sb := 50, i_count := 1, i_nlink := 1\<rparr>],
     inode_in_use := [60], nr_inodes := 1\<rparr>"

text \<open>The machine with the root of a tree at 70, on the inode at 60, and a negative child at 71.\<close>

definition root_dentry :: dentry where
  "root_dentry = \<lparr>d_count = 2, d_flags = 16, d_inode = 60, d_parent = 70,
     d_name = \<lparr>q_hash = 0, q_len = 1, q_name = ''/''\<rparr>, d_subdirs = [71], d_op = No_dops, d_sb = 50,
     d_fsdata = 0, d_mounted = 0, d_iname = ''/'', d_external = False\<rparr>"

definition two_dentries :: aufs where
  "two_dentries = one_inode\<lparr>inodes := [60 \<mapsto> slab_inode\<lparr>i_sb := 50, i_count := 1, i_nlink := 1, i_dentry := [70]\<rparr>],
     dentries := [70 \<mapsto> root_dentry, 71 \<mapsto> root_dentry\<lparr>d_count := 1, d_inode := 0, d_subdirs := []\<rparr>]\<rparr>"

text \<open>Three heads of empty lists.\<close>

definition three_nodes :: lheap where
  "three_nodes = [1 \<mapsto> \<lparr>l_next = 1, l_prev = 1\<rparr>, 2 \<mapsto> \<lparr>l_next = 2, l_prev = 2\<rparr>, 3 \<mapsto> \<lparr>l_next = 3, l_prev = 3\<rparr>]"

text \<open>
  A stand-in for mounting: the superblock at 50, its root at 70 on the directory inode 60, and the mount at 80.
\<close>

definition dir_inode :: inode where
  "dir_inode = slab_inode\<lparr>i_sb := 50, i_count := 1, i_nlink := 2, i_dentry := [70], i_mode := 0x41ED,
     i_op := Simple_dir_inode_operations, i_fop := Simple_dir_operations\<rparr>"

definition mount_fixed :: "ptr \<Rightarrow> aufs \<Rightarrow> (ptr \<times> aufs) option" where
  "mount_fixed t s = Some (80, s\<lparr>supers := [50 \<mapsto> boot_super\<lparr>s_inodes := [60], s_root := 70\<rparr>],
     inodes := [60 \<mapsto> dir_inode], inode_in_use := [60], nr_inodes := 1,
     dentries := [70 \<mapsto> root_dentry\<lparr>d_count := 1, d_subdirs := []\<rparr>], nr_dentry := 1,
     mounts := [80 \<mapsto> \<lparr>mnt_parent = 80, mnt_mountpoint = 70, mnt_root = 70, mnt_sb = 50, mnt_mounts = [], mnt_count = 1, mnt_flags = 0, mnt_expiry_mark = 0, mnt_devname = Some ''none''\<rparr>]\<rparr>)"

text \<open>The machine with aufs mounted there and 8 bytes of user memory at 1000.\<close>

definition mounted :: aufs where
  "mounted = (snd (the (mount_fixed 5 boot)))\<lparr>aufs_mount := 80, umem := (\<lambda>a. if 1000 \<le> a \<and> a < 1008 then Some CHR ''0'' else None)\<rparr>"

text \<open>The same machine after the file \<^verbatim>\<open>jw\<close> has been created in the root, and opened as file 7.\<close>

definition with_file :: aufs where
  "with_file = snd (the (aufs_create_file ''jw'' 0x8124 70 0 (Some Aufs_file_operations) mounted))"

definition opened :: "ptr \<Rightarrow> aufs" where
  "opened d = with_file\<lparr>files := [7 \<mapsto> \<lparr>f_dentry = d, f_vfsmnt = 80, f_op = Simple_dir_operations, f_mode = 1, f_pos = 0, private_data = 99\<rparr>]\<rparr>"

text \<open>The machine with two names for two inodes and one name without: 72 stands for the inode 61.\<close>

definition three_dentries :: aufs where
  "three_dentries = two_dentries\<lparr>supers := [50 \<mapsto> boot_super\<lparr>s_inodes := [60, 61]\<rparr>], inode_in_use := [60, 61],
     inodes := [60 \<mapsto> slab_inode\<lparr>i_sb := 50, i_count := 1, i_nlink := 1, i_dentry := [70]\<rparr>,
       61 \<mapsto> slab_inode\<lparr>i_sb := 50, i_count := 1, i_nlink := 1, i_dentry := [72]\<rparr>],
     dentries := [70 \<mapsto> root_dentry\<lparr>d_count := 3, d_subdirs := [71, 72]\<rparr>, 71 \<mapsto> root_dentry\<lparr>d_count := 1, d_inode := 0, d_subdirs := []\<rparr>,
       72 \<mapsto> root_dentry\<lparr>d_count := 1, d_inode := 61, d_subdirs := []\<rparr>]\<rparr>"

lemma one_inode_wf: "icache_wf one_inode"
  by (auto simp: icache_wf_def one_inode_def inode_ok_def super_ok_def boot_def boot_super_def
      slab_inode_def quiet_def)

lemma two_dentries_wf: "dcache_wf two_dentries"
proof -
  have "icache_wf two_dentries"
    by (auto simp: icache_wf_def two_dentries_def one_inode_def inode_ok_def super_ok_def boot_def boot_super_def
        slab_inode_def quiet_def)
  moreover have "hash_ok two_dentries"
    by (auto simp: hash_ok_def two_dentries_def one_inode_def boot_def root_dentry_def d_unhashed_def split: if_splits)
  moreover have "dentry_ok two_dentries p d" if d: "dentries two_dentries p = Some d" for p d
    using d by (auto simp: dentry_ok_def two_dentries_def one_inode_def boot_def root_dentry_def d_unhashed_def
        ext_refs_def split: if_splits)
  moreover have "alias_ok two_dentries p i" if i: "inodes two_dentries p = Some i" for p i
    using i by (auto simp: alias_ok_def two_dentries_def root_dentry_def split: if_splits)
  ultimately show ?thesis
    by (auto simp: dcache_wf_def) (auto simp: two_dentries_def one_inode_def boot_def boot_super_def split: if_splits)
qed

lemma two_dentries_at:
  "held two_dentries = {}" "dentries two_dentries 71 = Some (root_dentry\<lparr>d_count := 1, d_inode := 0, d_subdirs := []\<rparr>)"
  "dentries two_dentries 70 = Some root_dentry"
  by (simp_all add: two_dentries_def one_inode_def boot_def)

lemma three_nodes_rings: "ring three_nodes 1 []" "ring three_nodes 2 []" "ring three_nodes 3 []"
  by (auto simp: three_nodes_def ring_def lnext_def lprev_def)

lemma boot_types: "registered boot []" "fs_fresh 5 boot"
proof -
  show r: "registered boot []" by (simp add: registered_def boot_def)
  have "fs_links boot 5 = Some 0" by (simp add: fs_links_def boot_def aufs_type_def)
  moreover have "xs = []" if xs: "registered boot xs" for xs
    using fs_registry.listed_unique [OF r xs] by simp
  ultimately show "fs_fresh 5 boot" unfolding fs_fresh_def by fastforce
qed

lemma mount_fixed_live:
  assumes "only_types boot s"
  shows "aufs_live 70 ((snd (the (mount_fixed 5 s)))\<lparr>aufs_mount := 80\<rparr>)" "\<not> child_of (snd (the (mount_fixed 5 s))) 70 nm c"
proof -
  obtain f g where s: "s = boot\<lparr>fstypes := f, file_systems := g\<rparr>" using assms by (auto simp: only_types_def)
  define t where "t = (snd (the (mount_fixed 5 s)))\<lparr>aufs_mount := 80\<rparr>"
  have t: "supers t = [50 \<mapsto> boot_super\<lparr>s_inodes := [60], s_root := 70\<rparr>]" "inodes t = [60 \<mapsto> dir_inode]"
    "inode_in_use t = [60]" "inode_unused t = []" "inode_hashtable t = (\<lambda>_. [])" "next_addr t = 100"
    "dentries t = [70 \<mapsto> root_dentry\<lparr>d_count := 1, d_subdirs := []\<rparr>]" "dentry_hashtable t = (\<lambda>_. [])" "dentry_unused t = []"
    "rename_seq t = 0" "held t = {}" "mem_ok t = (\<lambda>_. True)" "cur_caps t = {1, 2, 3}" "aufs_mount t = 80"
    "\<exists>m. mounts t 80 = Some m \<and> mnt_sb m = 50"
    by (simp_all add: t_def mount_fixed_def s boot_def)
  have "icache_wf t"
    by (auto simp: icache_wf_def t inode_ok_def super_ok_def boot_super_def dir_inode_def slab_inode_def quiet_def)
  moreover have "hash_ok t"
    by (auto simp: hash_ok_def t root_dentry_def d_unhashed_def split: if_splits)
  moreover have "dentry_ok t p d" if d: "dentries t p = Some d" for p d
    using d by (auto simp: dentry_ok_def t root_dentry_def dir_inode_def d_unhashed_def ext_refs_def split: if_splits)
  moreover have "alias_ok t p i" if i: "inodes t p = Some i" for p i
    using i by (auto simp: alias_ok_def t root_dentry_def dir_inode_def split: if_splits)
  ultimately have "dcache_wf t"
    by (auto simp: dcache_wf_def) (auto simp: t boot_super_def split: if_splits)
  moreover have "dir_at t 70" by (simp add: dir_at_def t root_dentry_def dir_inode_def S_ISDIR_def)
  ultimately have "aufs_live 70 t" using t(11-15) by (auto simp: aufs_live_def t(1))
  then show "aufs_live 70 ((snd (the (mount_fixed 5 s)))\<lparr>aufs_mount := 80\<rparr>)" by (simp add: t_def)
  have "\<not> child_of t 70 nm c" by (auto simp: child_of_def t root_dentry_def d_unhashed_def split: if_splits)
  then show "\<not> child_of (snd (the (mount_fixed 5 s))) 70 nm c" by (simp add: t_def child_of_def)
qed

lemma only_types_refl: "only_types s s"
  using only_types_intros(1) [of s "fstypes s"] by simp

lemma mounted_live: "aufs_live 70 mounted" "\<not> child_of mounted 70 nm c"
proof -
  define t where "t = (snd (the (mount_fixed 5 boot)))\<lparr>aufs_mount := 80\<rparr>"
  note l = mount_fixed_live [OF only_types_refl]
  have m: "mounted = t\<lparr>umem := (\<lambda>a. if 1000 \<le> a \<and> a < 1008 then Some CHR ''0'' else None)\<rparr>" by (simp add: mounted_def t_def)
  have "dcache_wf (t\<lparr>umem := u\<rparr>) = dcache_wf t" for u
    by (simp add: dcache_wf_def icache_wf_def inode_ok_def super_ok_def dentry_ok_def hash_ok_def alias_ok_def d_hash_def)
  then show "aufs_live 70 mounted" using l(1) unfolding m t_def [symmetric] by (simp add: aufs_live_def dir_at_def)
  show "\<not> child_of mounted 70 nm c" using l(2) [of nm c] unfolding m t_def by (simp add: child_of_def)
qed

lemma mounted_root:
  "dcache_wf mounted" "held mounted = {}" "dentries mounted 70 = Some (root_dentry\<lparr>d_count := 1, d_subdirs := []\<rparr>)"
  "inodes mounted 60 = Some dir_inode" "supers mounted 50 = Some (boot_super\<lparr>s_inodes := [60], s_root := 70\<rparr>)"
  "permission 60 MAY_EXEC mounted = Some 0" "mem_ok mounted a"
proof -
  show w: "dcache_wf mounted" "held mounted = {}" "mem_ok mounted a" using mounted_live(1) by (simp_all add: aufs_live_def)
  show d: "dentries mounted 70 = Some (root_dentry\<lparr>d_count := 1, d_subdirs := []\<rparr>)"
    "inodes mounted 60 = Some dir_inode" "supers mounted 50 = Some (boot_super\<lparr>s_inodes := [60], s_root := 70\<rparr>)"
    by (simp_all add: mounted_def mount_fixed_def)
  show "permission 60 MAY_EXEC mounted = Some 0"
    by (rule permission_override [OF d(2)]) (use d(3) in \<open>simp_all add: dir_inode_def S_ISDIR_def mounted_def mount_fixed_def boot_def\<close>)
qed

lemma mounted_d_inode: "d_inode (root_dentry\<lparr>d_count := 1, d_subdirs := []\<rparr>) = 60"
  by (simp add: root_dentry_def)

lemma two_dentries_step: "parent_step two_dentries x y \<longleftrightarrow> x = 71 \<and> y = 70"
  by (auto simp: parent_step_def two_dentries_def root_dentry_def)

lemma two_dentries_ranked: "ranked two_dentries nat"
  by (simp add: ranked_def two_dentries_step)

lemma mounted_ranked: "ranked mounted nat"
  by (auto simp: ranked_def parent_step_def mounted_def mount_fixed_def root_dentry_def)

lemma boot_wf: "dcache_wf boot"
  by (simp add: dcache_wf_def icache_wf_def hash_ok_def boot_def)

lemma with_file_at:
  "aufs_live 70 with_file" "child_of with_file 70 ''jw'' 100"
  "\<exists>d. dentries with_file 100 = Some d \<and> d_inode d = 101 \<and> d_count d = 2 \<and> d_subdirs d = [] \<and> d_parent d = 70"
  "\<exists>q. dentries with_file 70 = Some q \<and> d_inode q = 60 \<and> d_unhashed q \<and> d_parent q = 70"
  "\<exists>i. inodes with_file 60 = Some i" "\<exists>i. inodes with_file 101 = Some i \<and> i_writecount i = 0"
  "dentries with_file 99 = None"
proof -
  have l: "aufs_live 70 mounted" by (rule mounted_live(1))
  then have r: "dir_at mounted 70" "dcache_wf mounted" by (simp_all add: aufs_live_def)
  have n: "next_addr mounted = 100" by (simp add: mounted_def mount_fixed_def boot_def)
  have c: "plain_name ''jw''" "length ''jw'' \<le> 255" "creatable 0x8124"
    by (simp_all add: plain_name_def creatable_def file_or_dir_def by_name_mode_def)
  obtain s where s: "aufs_create_file ''jw'' 0x8124 70 0 (Some Aufs_file_operations) mounted = Some (next_addr mounted, s)"
      "aufs_live 70 s" "created 70 ''jw'' 0x8124 0 (Some Aufs_file_operations) mounted s"
    by (rule create_step [OF l r(1) c(1,2) mounted_live(2) c(3)])
  then have w: "with_file = s" by (simp add: with_file_def)
  show "aufs_live 70 with_file" "child_of with_file 70 ''jw'' 100"
    using s(2) created_child [OF r(2) s(3)] n by (simp_all add: w)
  obtain q i b where q: "dentries mounted 70 = Some q" "inodes mounted (d_inode q) = Some i"
      "dentries s = (dentries mounted)(70 \<mapsto> q\<lparr>d_count := d_count q + 1, d_subdirs := next_addr mounted # d_subdirs q\<rparr>,
          next_addr mounted \<mapsto> entry_dentry 70 q ''jw'' mounted)"
      "inodes s = (inodes mounted)(d_inode q \<mapsto> i,
          next_addr mounted + name_blocks (mk_qstr ''jw'') \<mapsto> entry_inode i b ''jw'' 0x8124 0 (Some Aufs_file_operations) mounted)"
    using s(3) by (auto simp: created_def)
  have q60: "d_inode q = 60" "d_unhashed q" "d_parent q = 70" using q(1) mounted_root(3) by (auto simp: root_dentry_def d_unhashed_def)
  have nb: "name_blocks (mk_qstr ''jw'') = 1" by (simp add: name_blocks_def mk_qstr_def)
  show "\<exists>d. dentries with_file 100 = Some d \<and> d_inode d = 101 \<and> d_count d = 2 \<and> d_subdirs d = [] \<and> d_parent d = 70"
    using q(3) n nb by (simp add: w entry_dentry_def neg_child_def)
  show "\<exists>q. dentries with_file 70 = Some q \<and> d_inode q = 60 \<and> d_unhashed q \<and> d_parent q = 70"
    using q(3) q60 n by (simp add: w d_unhashed_def)
  show "\<exists>i. inodes with_file 60 = Some i" using q(4) q60 n nb by (simp add: w)
  show "\<exists>i. inodes with_file 101 = Some i \<and> i_writecount i = 0"
    using q(4) n nb by (simp add: w entry_inode_def aufs_inode_def fresh_inode_def Let_def)
  show "dentries with_file 99 = None" using q(3) n by (simp add: w mounted_def mount_fixed_def)
qed

lemma three_dentries_wf: "dcache_wf three_dentries"
proof -
  have "icache_wf three_dentries"
    by (auto simp: icache_wf_def three_dentries_def two_dentries_def one_inode_def inode_ok_def super_ok_def boot_def boot_super_def
        slab_inode_def quiet_def)
  moreover have "hash_ok three_dentries"
    by (auto simp: hash_ok_def three_dentries_def two_dentries_def one_inode_def boot_def root_dentry_def d_unhashed_def split: if_splits)
  moreover have "dentry_ok three_dentries p d" if d: "dentries three_dentries p = Some d" for p d
    using d by (auto simp: dentry_ok_def three_dentries_def two_dentries_def one_inode_def boot_def root_dentry_def d_unhashed_def
        ext_refs_def split: if_splits)
  moreover have "alias_ok three_dentries p i" if i: "inodes three_dentries p = Some i" for p i
    using i by (auto simp: alias_ok_def three_dentries_def root_dentry_def split: if_splits)
  ultimately show ?thesis
    by (auto simp: dcache_wf_def) (auto simp: three_dentries_def two_dentries_def one_inode_def boot_def boot_super_def split: if_splits)
qed

end
