(* ===== verification/Spec2Isabelle.thy ===== *)
theory Spec2Isabelle
  imports Boot_State
begin

text \<open>
  Verification of the file-system module aufs (\<^verbatim>\<open>src/aufs\<close>) and of the parts of the Linux virtual
  file system it stands on (\<^verbatim>\<open>src/3rd/linux-2.6.14/linux-2.6.14\<close>).
\<close>

section \<open>The module aufs\<close>



text \<open>
  C4. Creating a file or a directory under a name that is not taken gives a new dentry with a new inode of the
  mode asked for. The parent has one child and one reference more, and one link more when the entry is a
  directory; no other entry of any directory changes, nothing else of the system is touched and the invariant
  of the caches holds.
\<close>

theorem aufs_create_file_creates:
  assumes "dcache_wf s" and "held s = {}" and "dentries s r = Some q" "0 < d_count q"
    and "plain_name nm" "length nm \<le> 255" and "\<And>c. \<not> child_of s r nm c"
    and "inodes s (d_inode q) = Some i" "i_op i = Simple_dir_inode_operations" "supers s (i_sb i) = Some b"
    and "permission (d_inode q) MAY_EXEC s = Some 0" and "d_alloc_mem (mk_qstr nm) s"
      "mem_ok s (next_addr s + name_blocks (mk_qstr nm))" and "creatable mode"
  shows "\<exists>s'. aufs_create_file nm mode r data fops s = Some (next_addr s, s') \<and> dcache_wf s' \<and> aufs_frame s s' \<and>
    created r nm mode data fops s s' \<and>
    (\<forall>k str x. child_of s' k str x \<longleftrightarrow> child_of s k str x \<or> k = r \<and> str = nm \<and> x = next_addr s)"
  using aufs_create_file_ok [OF assms, of data fops] created_child [OF assms(1)] by blast

theorem aufs_create_file_creates_witness:
  "\<exists>s'. aufs_create_file ''lbb'' 0x8124 70 0 None mounted = Some (next_addr mounted, s') \<and> dcache_wf s' \<and>
    child_of s' 70 ''lbb'' (next_addr mounted)"
proof -
  have "d_inode (root_dentry\<lparr>d_count := 1, d_subdirs := []\<rparr>) = 60" "i_sb dir_inode = 50"
    by (simp_all add: root_dentry_def dir_inode_def)
  then show ?thesis
    using aufs_create_file_creates [of mounted 70 "root_dentry\<lparr>d_count := 1, d_subdirs := []\<rparr>" "''lbb''" dir_inode
        "boot_super\<lparr>s_inodes := [60], s_root := 70\<rparr>" "0x8124" 0 None] mounted_root mounted_live(2)
    by (auto simp: plain_name_def dir_inode_def d_alloc_mem_def creatable_def file_or_dir_def)
qed



text \<open>
  C17. A name that the lookup refuses, the empty one or one with a slash, makes the kernel oops: the error pointer is
  used as a dentry, since the code tests the address of its variable for an error instead of its value.
\<close>

theorem aufs_create_file_bad_name_oops:
  assumes "dcache_wf s" and "dentries s r = Some q" and "\<not> plain_name nm"
  shows "aufs_create_file nm mode r data fops s = None"
  by (rule aufs_create_file_oops [OF assms])

theorem aufs_create_file_bad_name_oops_witness: "aufs_create_file ''a/b'' 0x8124 70 0 None mounted = None"
  using aufs_create_file_bad_name_oops [OF mounted_root(1,3), of "''a/b''"] by (simp add: plain_name_def)



text \<open>
  C9. What is written to a file of aufs is what its readers see: after a write whose first byte is \<open>c\<close>, reading the
  file from its start to its end in pieces of any size gives the text for enabled, or the one for disabled if
  \<open>c\<close> is the digit 0. At most 21 reads are needed.
\<close>

theorem aufs_write_then_read:
  assumes "umem s wbuf = Some c" and "user_ok rbuf k s" and "0 < k"
  shows "\<exists>s1 m. aufs_file_write fl wbuf n pos s = Some (int n, s1) \<and>
    cat 21 rbuf k 0 s1 = Some ((if c \<noteq> CHR ''0'' then ''aufs read enabled'' else ''aufs read disabled'') @ backslash_n, s1\<lparr>umem := m\<rparr>)"
proof -
  let ?s = "s\<lparr>enabled := of_bool (c \<noteq> CHR ''0'')\<rparr>"
  have "user_ok rbuf k ?s" using assms(2) by (simp add: user_ok_def)
  from cat_all [OF this assms(3)] show ?thesis
    using aufs_file_write_ok [OF assms(1), of fl n pos] by (auto simp: control_text_def)
qed

theorem aufs_write_then_read_witness:
  "\<exists>s1 m. aufs_file_write 0 1000 1 0 mounted = Some (1, s1) \<and>
    cat 21 1000 8 0 s1 = Some (''aufs read disabled'' @ backslash_n, s1\<lparr>umem := m\<rparr>)"
proof -
  have u: "umem mounted 1000 = Some CHR ''0''" "user_ok 1000 8 mounted" by (auto simp: mounted_def user_ok_def)
  show ?thesis using aufs_write_then_read [OF u, of 0 1 0] by simp
qed

section \<open>Names\<close>

text \<open>
  C6. Looking up a name that is in a directory returns the one dentry it stands for, with one reference more, and
  changes nothing else.
\<close>

theorem lookup_one_len_found:
  assumes "dcache_wf s" and "held s = {}" and "dentries s r = Some q" and "plain_name nm"
    and "child_of s r nm c" and "dentries s c = Some d" and "permission (d_inode q) MAY_EXEC s = Some 0"
  shows "lookup_one_len lk nm r (length nm) s = Some (c, s\<lparr>dentries := (dentries s)(c \<mapsto> d\<lparr>d_count := d_count d + 1\<rparr>)\<rparr>) \<and>
    dcache_wf (s\<lparr>dentries := (dentries s)(c \<mapsto> d\<lparr>d_count := d_count d + 1\<rparr>)\<rparr>)"
  unfolding lookup_one_len_plain [OF assms(4)]
  using lookup_hash_hit [OF assms(1,2,3) _ _ assms(6,7), of "mk_qstr nm"] dget_wf [OF assms(1,6)] assms(5) by simp

text \<open>
  C7. Looking up a name that is not there, in a directory of the in-memory library, enters a negative dentry for
  it, which is then what the name stands for; every other name keeps its meaning.
\<close>

theorem lookup_one_len_missing:
  assumes "dcache_wf s" and "held s = {}" and "dentries s r = Some q" "0 < d_count q" and "plain_name nm" "length nm \<le> 255"
    and "\<And>c. \<not> child_of s r nm c" and "inodes s (d_inode q) = Some i" "i_op i = Simple_dir_inode_operations"
    and "permission (d_inode q) MAY_EXEC s = Some 0" and "d_alloc_mem (mk_qstr nm) s"
  shows "\<exists>s'. lookup_one_len i_op_lookup nm r (length nm) s = Some (next_addr s, s') \<and> dcache_wf s' \<and>
    dentries s' (next_addr s) = Some (neg_child r (d_sb q) (mk_qstr nm) s) \<and> inodes s' = inodes s \<and>
    (\<forall>k str x. child_of s' k str x \<longleftrightarrow> child_of s k str x \<or> k = r \<and> str = nm \<and> x = next_addr s)"
proof -
  have none: "\<And>c. \<not> child_of s r (q_name (mk_qstr nm)) c" using assms(7) by simp
  show ?thesis
    unfolding lookup_one_len_plain [OF assms(5)]
    using lookup_hash_miss [OF assms(1-4) _ _ none assms(8-11)] with_neg_wf [OF assms(1-3) _ none] assms(6)
      with_neg_child [OF assms(1,3), of "mk_qstr nm"] by simp
qed

theorem lookup_one_len_missing_witness:
  "\<exists>s'. lookup_one_len i_op_lookup ''lbb'' 70 3 mounted = Some (next_addr mounted, s') \<and> dcache_wf s' \<and>
    child_of s' 70 ''lbb'' (next_addr mounted)"
  using lookup_one_len_missing [OF mounted_root(1-3), of "''lbb''" dir_inode] mounted_root mounted_live(2) mounted_d_inode
  by (auto simp: plain_name_def dir_inode_def d_alloc_mem_def numeral_3_eq_3)

theorem lookup_one_len_found_witness:
  "\<exists>s s'. lookup_one_len i_op_lookup ''lbb'' 70 3 mounted = Some (next_addr mounted, s) \<and>
    lookup_one_len i_op_lookup ''lbb'' 70 3 s = Some (next_addr mounted, s')"
proof -
  let ?q = "root_dentry\<lparr>d_count := 1, d_subdirs := []\<rparr>" and ?n = "mk_qstr ''lbb''"
  define s where "s = with_neg 70 ?q ?n mounted"
  have p: "plain_name ''lbb''" by (simp add: plain_name_def)
  have e: "\<And>c. \<not> child_of mounted 70 (q_name ?n) c" using mounted_live(2) by simp
  have l: "lookup_one_len i_op_lookup ''lbb'' 70 3 mounted = Some (next_addr mounted, s)"
    using lookup_one_len_plain [OF p, of i_op_lookup 70 mounted] lookup_hash_miss [OF mounted_root(1-3) _ _ _ e, of dir_inode] mounted_root mounted_d_inode
    by (simp add: s_def dir_inode_def d_alloc_mem_def numeral_3_eq_3)
  have w: "dcache_wf s" unfolding s_def by (rule with_neg_wf [OF mounted_root(1-3) _ e]) simp
  have ne: "next_addr mounted \<noteq> 70" using dcache_wf_fresh [OF mounted_root(1)] mounted_root(3) by auto
  have q: "dentries s 70 = Some (?q\<lparr>d_count := d_count ?q + 1, d_subdirs := next_addr mounted # d_subdirs ?q\<rparr>)"
    using ne by (simp add: s_def)
  have c: "child_of s 70 ''lbb'' (next_addr mounted)" using with_neg_child [OF mounted_root(1,3), of ?n] by (simp add: s_def)
  have pm: "permission 60 MAY_EXEC s = Some 0"
    using mounted_root(4,5) by (intro permission_override [of _ _ dir_inode]) (auto simp: s_def dir_inode_def S_ISDIR_def with_neg_def mounted_def mount_fixed_def boot_def)
  show ?thesis
    using lookup_one_len_found [OF w _ q p c, of "neg_child 70 (d_sb ?q) ?n mounted" i_op_lookup] l mounted_root(2) pm mounted_d_inode by (simp add: s_def numeral_3_eq_3)
qed

text \<open>
  C11. A new dentry that is given an inode and entered into the hash table under a free name is found by the next
  lookup of that name in its directory, and the invariant of the caches holds all along.
\<close>

theorem d_add_then_lookup:
  assumes "dcache_wf s" and "held s = {}" and "dentries s p = Some d" "d_unhashed d" "d_inode d = 0"
    and "qstr_ok (d_name d)" and "\<And>c. \<not> child_of s (d_parent d) (nm_of d) c"
    and "inodes s n = Some i" "int (length (i_dentry i)) < i_count i"
  shows "\<exists>s1 s2. d_add p n s = Some s1 \<and> dcache_wf s1 \<and> child_of s1 (d_parent d) (nm_of d) p \<and>
    d_lookup (d_parent d) (d_name d) s1 = Some (p, s2) \<and> dcache_wf s2"
  by (rule d_add_lookup [OF assms])

theorem d_add_then_lookup_witness:
  "\<exists>n t p u s1 s2. new_inode 50 mounted = Some (n, t) \<and> d_alloc 70 (mk_qstr ''lbb'') t = Some (p, u) \<and> d_add p n u = Some s1 \<and>
     d_lookup 70 (mk_qstr ''lbb'') s1 = Some (p, s2)"
proof -
  let ?q = "root_dentry\<lparr>d_count := 1, d_subdirs := []\<rparr>" and ?b = "boot_super\<lparr>s_inodes := [60], s_root := 70\<rparr>" and ?m = "mk_qstr ''lbb''"
  note wf = dcache_wfD(1) [OF mounted_root(1)]
  define t where "t = with_inode 50 ?b (fresh_inode 50 ?b mounted) mounted"
  have n0: "next_addr mounted \<noteq> 0" using icache_wfD(1) [OF wf] by simp
  have nt: "new_inode 50 mounted = Some (next_addr mounted, t)"
    unfolding t_def with_inode_def by (rule new_inode_ok [OF mounted_root(2,7) n0 mounted_root(5)])
  have wt: "dcache_wf t" unfolding t_def by (rule with_inode_dcache [OF mounted_root(1,5)]) simp_all
  have t: "held t = {}" "dentries t 70 = Some ?q" "inodes t (next_addr mounted) = Some (fresh_inode 50 ?b mounted)" "\<And>a. mem_ok t a"
    "\<And>str c. \<not> child_of t 70 str c"
    using mounted_root(2,3,7) mounted_live(2) by (simp_all add: t_def with_inode_def child_of_def)
  let ?f = "fresh_dentry 70 (d_sb ?q) ?m t" and ?p = "next_addr t"
  define u where "u = t\<lparr>next_addr := next_addr t + name_blocks ?m,
     dentries := (dentries t)(70 \<mapsto> ?q\<lparr>d_count := d_count ?q + 1, d_subdirs := ?p # d_subdirs ?q\<rparr>, ?p \<mapsto> ?f), nr_dentry := nr_dentry t + 1\<rparr>"
  have pos: "0 < ?p" "70 \<noteq> ?p" using icache_wfD(1) [OF dcache_wfD(1) [OF wt]] dcache_wf_fresh [OF wt] t(2) by auto
  have a: "d_alloc 70 ?m t = Some (?p, u)" unfolding u_def
    by (rule d_alloc_ok [OF t(1)]) (use t pos in \<open>simp_all add: d_alloc_mem_def\<close>)
  have wu: "dcache_wf u" unfolding u_def by (rule d_alloc_wf [OF wt t(2)]) simp
  have f: "d_name ?f = ?m" by (simp add: mk_qstr_def)
  have cu: "\<not> child_of u 70 str c" for str c unfolding u_def child_of_alloc [OF wt t(2)] by (rule t(5))
  have "\<exists>s1 s2. d_add ?p (next_addr mounted) u = Some s1 \<and> dcache_wf s1 \<and> child_of s1 (d_parent ?f) (nm_of ?f) ?p \<and>
    d_lookup (d_parent ?f) (d_name ?f) s1 = Some (?p, s2) \<and> dcache_wf s2"
    by (rule d_add_then_lookup [OF wu, where i = "fresh_inode 50 ?b mounted"]) (use t(1,3) f cu pos in \<open>simp_all add: u_def del: fresh_dentry_simps(9)\<close>)
  then show ?thesis using nt a unfolding f fresh_dentry_simps(1) by blast
qed

text \<open>
  C34. Making an inode keeps the invariant of the inode cache. With memory the inode is at an address that no inode
  had, with one reference, one link and no number in the hash table; without, NULL is returned and no inode
  changes.
\<close>

theorem new_inode_keeps:
  assumes "icache_wf s" and "held s = {}" and "supers s sb = Some b"
  shows "\<exists>p s'. new_inode sb s = Some (p, s') \<and> icache_wf s' \<and> held s' = {} \<and>
    (if mem_ok s (next_addr s) then p \<noteq> 0 \<and> inodes s p = None \<and> inodes s' = (inodes s)(p \<mapsto> fresh_inode sb b s)
     else p = 0 \<and> inodes s' = inodes s)"
  by (rule new_inode_wf [OF assms])

theorem new_inode_keeps_witness:
  "\<exists>p s'. new_inode 50 one_inode = Some (p, s') \<and> icache_wf s' \<and> inodes one_inode p = None"
proof -
  have "held one_inode = {}" "supers one_inode 50 = Some (boot_super\<lparr>s_inodes := [60]\<rparr>)" "mem_ok one_inode (next_addr one_inode)"
    by (simp_all add: one_inode_def boot_def)
  with new_inode_keeps [OF one_inode_wf this(1,2)] show ?thesis by auto
qed

text \<open>
  C33. Registering a type under a name that is taken gives \<^verbatim>\<open>EBUSY\<close> and leaves the list as it was, but the superblocks
  of the type handed in are forgotten: its list of superblocks is initialised before the name is looked for.
\<close>

theorem register_taken:
  assumes "registered s xs" and "fs \<noteq> 0" "fstypes s fs = Some t" "fs_next t = 0" and "Some (fs_name t) \<in> fs_named s ` set xs"
    and "File_systems_lock \<notin> held s"
  shows "register_filesystem fs s = Some (- EBUSY, s\<lparr>fstypes := (fstypes s)(fs \<mapsto> t\<lparr>fs_supers := []\<rparr>)\<rparr>)"
  by (rule register_busy [OF assms])

theorem register_taken_witness:
  "\<exists>s'. register_filesystem 5 (boot\<lparr>file_systems := 5, fstypes := [5 \<mapsto> aufs_type\<lparr>fs_supers := [50]\<rparr>]\<rparr>) = Some (- EBUSY, s') \<and>
     map_option fs_supers (fstypes s' 5) = Some []"
proof -
  let ?s = "boot\<lparr>file_systems := 5, fstypes := [5 \<mapsto> aufs_type\<lparr>fs_supers := [50]\<rparr>]\<rparr>"
  have "registered ?s [5]" by (simp add: registered_def fs_links_def aufs_type_def)
  from register_taken [OF this, of 5 "aufs_type\<lparr>fs_supers := [50]\<rparr>"]
  have "register_filesystem 5 ?s = Some (- EBUSY, ?s\<lparr>fstypes := (fstypes ?s)(5 \<mapsto> aufs_type\<lparr>fs_supers := []\<rparr>)\<rparr>)"
    by (simp add: fs_named_def aufs_type_def) (simp add: boot_def)
  then show ?thesis by simp
qed

text \<open>
  C31. The number of types and the index of a name are those of the list: \<^verbatim>\<open>fs_maxindex\<close> counts the registered types,
  \<^verbatim>\<open>fs_index\<close> gives the position of the one with the name, or \<^verbatim>\<open>EINVAL\<close> if there is none.
\<close>

theorem fs_index_is_position:
  assumes "registered s xs" and "File_systems_lock \<notin> held s"
  shows "fs_maxindex s = Some (length xs, s) \<and>
    (\<forall>k<length xs. \<forall>nm. fs_named s (xs ! k) = Some nm \<longrightarrow> fs_index nm s = Some (int k, s)) \<and>
    (\<forall>nm. Some nm \<notin> fs_named s ` set xs \<longrightarrow> fs_index nm s = Some (- EINVAL, s))"
  using fs_maxindex_length [OF assms] fs_index_nth [OF assms] fs_index_none [OF assms] by blast

theorem fs_index_is_position_witness:
  "fs_index ''aufs'' (boot\<lparr>file_systems := 5\<rparr>) = Some (0, boot\<lparr>file_systems := 5\<rparr>)"
proof -
  have "registered (boot\<lparr>file_systems := 5\<rparr>) [5]" by (simp add: registered_def fs_links_def aufs_type_def boot_def)
  moreover have "File_systems_lock \<notin> held (boot\<lparr>file_systems := 5\<rparr>)" "fs_named (boot\<lparr>file_systems := 5\<rparr>) 5 = Some ''aufs''"
    by (simp_all add: fs_named_def aufs_type_def boot_def)
  ultimately show ?thesis using fs_index_is_position [of "boot\<lparr>file_systems := 5\<rparr>" "[5]"] by simp
qed

section \<open>Permissions\<close>

text \<open>
  C29. The binary search for a supplementary group is correct on a sorted list whose numbers are below \<open>2\<^sup>3\<^sup>1\<close>.
\<close>

theorem groups_search_is_member:
  assumes "sorted (map uint gs)" and "\<forall>g\<in>set gs. uint g < 2 ^ 31" and "uint grp < 2 ^ 31"
  shows "groups_search gs grp \<longleftrightarrow> grp \<in> set gs"
  by (rule groups_search_correct [OF assms])

theorem groups_search_is_member_witness: "groups_search [1, 4, 9] 9 \<and> \<not> groups_search [1, 4, 9] 5"
  using groups_search_is_member [of "[1, 4, 9]" 9] groups_search_is_member [of "[1, 4, 9]" 5] by simp




section \<open>Reads\<close>

text \<open>
  C35. A read from a kernel buffer never passes its end: it returns an error and leaves the position, or a count
  of at most what was asked for, moves the position by that count and not beyond the end.
\<close>

theorem simple_read_within:
  assumes "simple_read_from_buffer a n pos str (length str) s = ((r, pos'), s')"
  shows "r \<in> {- EINVAL, - EFAULT} \<and> pos' = pos \<or> 0 \<le> r \<and> r \<le> int n \<and> pos' = pos + r \<and> (0 < r \<longrightarrow> pos' \<le> int (length str))"
  by (rule simple_read_bounds [OF assms])

theorem simple_read_within_witness: "\<exists>r pos'. 0 \<le> r \<and> r \<le> 8 \<and> pos' = 1 + r \<and> (0 < r \<longrightarrow> pos' \<le> 3) \<and>
    fst (simple_read_from_buffer 1000 8 1 ''abc'' 3 mounted) = (r, pos')"
proof -
  obtain r pos' s' where e: "simple_read_from_buffer 1000 8 1 ''abc'' (length ''abc'') mounted = ((r, pos'), s')" by (metis prod.exhaust)
  have l: "1 < length ''abc''" and u: "user_ok 1000 8 mounted" by (simp, auto simp: mounted_def user_ok_def)
  obtain m where "simple_read_from_buffer 1000 8 (int 1) ''abc'' (length ''abc'') mounted =
       ((int (min 8 (length ''abc'' - 1)), int (1 + min 8 (length ''abc'' - 1))), mounted\<lparr>umem := m\<rparr>)"
    by (rule simple_read_ok [OF l u])
  then have "0 \<le> r" using e by simp
  with simple_read_within [OF e] e show ?thesis by (auto simp: numeral_3_eq_3)
qed

section \<open>Error pointers and lists\<close>

text \<open>
  C40. Reading a pointer as a 64-bit unsigned long and comparing it with \<^verbatim>\<open>(unsigned long)-1000L\<close>,
  as \<^verbatim>\<open>IS_ERR\<close> does, holds exactly for the small negative numbers that \<^verbatim>\<open>ERR_PTR\<close> makes.
\<close>

theorem IS_ERR_is_range:
  "- (2 ^ 63) \<le> p \<Longrightarrow> p < 2 ^ 63 \<Longrightarrow> IS_ERR_VALUE (word_of_int p) \<longleftrightarrow> IS_ERR p"
  by (rule IS_ERR_word)

theorem IS_ERR_is_range_witness:
  "IS_ERR_VALUE (word_of_int (- 12)) \<and> \<not> IS_ERR_VALUE (word_of_int 4096)"
  using IS_ERR_is_range [of "- 12"] IS_ERR_is_range [of 4096] by (simp add: IS_ERR_def)

section \<open>The inode cache\<close>

text \<open>
  C10. Dropping a reference to a live inode is safe in every state that satisfies the invariant of
  the inode cache: no lock is taken twice, nothing that is gone is touched and no \<^verbatim>\<open>BUG()\<close> is hit.
  It keeps the invariant, and the inode goes away exactly if this was its last reference and it
  does not stay cached.
\<close>

theorem iput_safe:
  assumes "icache_wf s" and "held s = {}" and "inodes s p = Some i" and "0 < i_count i"
    and "supers s (i_sb i) = Some b"
  shows "\<exists>s'. iput p s = Some s' \<and> icache_wf s' \<and> held s' = {} \<and>
    inodes s' = (if i_count i = 1 \<and> \<not> kept i b then (inodes s)(p := None)
         else (inodes s)(p \<mapsto> i\<lparr>i_count := i_count i - 1\<rparr>))"
proof -
  obtain s' where s': "iput p s = Some s'" "icache_step s s'" "icache_wf s'"
    "inodes s' = (if i_count i = 1 \<and> \<not> kept i b then (inodes s)(p := None)
         else (inodes s)(p \<mapsto> i\<lparr>i_count := i_count i - 1\<rparr>))"
    by (rule iput_shape [OF assms])
  with icache_step_core [OF s'(2)] assms(2) show ?thesis by auto
qed

theorem iput_safe_witness:
  "\<exists>s'. iput 60 one_inode = Some s' \<and> icache_wf s' \<and> inodes s' 60 = None"
  using iput_safe [OF one_inode_wf, of 60 "slab_inode\<lparr>i_sb := 50, i_count := 1, i_nlink := 1\<rparr>"
      "boot_super\<lparr>s_inodes := [60]\<rparr>"]
  by (auto simp: one_inode_def boot_def slab_inode_def kept_def)

section \<open>Lists\<close>

text \<open>
  C37. Entries appended one after the other to a circular doubly linked list are walked in the order in which
  they were appended, after those that were there.
\<close>

theorem list_add_tail_fifo:
  assumes "ring h head xs" and "distinct ns" and "set ns \<inter> set (head # xs) = {}" and "set ns \<subseteq> dom h"
  shows "\<exists>h'. add_all list_add_tail ns head h = Some h' \<and> list_for_each head h' = Some (xs @ ns)"
  using ring_list.fifo [OF assms(1-3)] assms(4) by blast

theorem list_add_tail_fifo_witness:
  "\<exists>h'. add_all list_add_tail [3, 2] 1 three_nodes = Some h' \<and> list_for_each 1 h' = Some [3, 2]"
  using list_add_tail_fifo [OF three_nodes_rings(1), of "[3, 2]"] by (auto simp: three_nodes_def)

text \<open>
  C38. Splicing one list to the front of another puts all its entries there in their order, and loses none of
  the entries that were there.
\<close>

theorem list_splice_joins:
  assumes "ring h lst xs" and "ring h head ys" and "set (lst # xs) \<inter> set (head # ys) = {}"
  shows "\<exists>h'. list_splice lst head h = Some h' \<and> ring h' head (xs @ ys) \<and> list_for_each head h' = Some (xs @ ys)"
  using list_splice_ring [OF assms] list_for_each_ring by blast

theorem list_splice_joins_witness:
  "\<exists>h'. list_splice 2 1 (three_nodes(2 \<mapsto> \<lparr>l_next = 3, l_prev = 3\<rparr>, 3 \<mapsto> \<lparr>l_next = 2, l_prev = 2\<rparr>)) = Some h' \<and>
     ring h' 1 [3] \<and> list_for_each 1 h' = Some [3]"
  using list_splice_joins [of "three_nodes(2 \<mapsto> \<lparr>l_next = 3, l_prev = 3\<rparr>, 3 \<mapsto> \<lparr>l_next = 2, l_prev = 2\<rparr>)" 2 "[3]" 1 "[]"]
  by (simp add: three_nodes_def ring_def lnext_def lprev_def)

text \<open>
  C39. Moving an entry from one list to the front of another takes it out of the first and leaves both well
  linked.
\<close>

theorem list_move_moves:
  assumes "ring h src (xs @ e # ys)" and "ring h dst zs" and "set (src # xs @ e # ys) \<inter> set (dst # zs) = {}"
  shows "\<exists>h'. list_move e dst h = Some h' \<and> ring h' src (xs @ ys) \<and> ring h' dst (e # zs)"
  by (rule list_move_ring [OF assms])

theorem list_move_moves_witness:
  "\<exists>h'. list_move 3 1 (three_nodes(2 \<mapsto> \<lparr>l_next = 3, l_prev = 3\<rparr>, 3 \<mapsto> \<lparr>l_next = 2, l_prev = 2\<rparr>)) = Some h' \<and>
     ring h' 2 [] \<and> ring h' 1 [3]"
  using list_move_moves [of "three_nodes(2 \<mapsto> \<lparr>l_next = 3, l_prev = 3\<rparr>, 3 \<mapsto> \<lparr>l_next = 2, l_prev = 2\<rparr>)" 2 "[]" 3 "[]" 1 "[]"]
  by (simp add: three_nodes_def ring_def lnext_def lprev_def)

section \<open>The dentry cache\<close>

text \<open>
  C5. Dropping a reference to a dentry that some user holds always returns: the loop that goes on to the parents
  of the dentries it frees ends, no lock is taken twice, no \<^verbatim>\<open>BUG()\<close> is hit and no freed object is touched. It
  keeps the invariant of the dentry and the inode cache, every dentry that is left has as many external
  references as before, the one put has one less, and no dentry with external references goes away.
\<close>

theorem dput_returns:
  assumes "dcache_wf s" and "held s = {}" and "dentries s p = Some d" and "0 < ext_refs d"
  shows "\<exists>s'. dput p s = Some s' \<and> dput_post p s s'"
  by (rule dput_total [OF assms])

theorem dput_returns_witness:
  "\<exists>s'. dput 71 two_dentries = Some s' \<and> dput_post 71 two_dentries s'"
  using dput_returns [OF two_dentries_wf two_dentries_at(1,2)] by (simp add: ext_refs_def)

section \<open>File-system types\<close>

text \<open>
  C21. Registering a type whose name is not taken appends it to the list of types, and unregistering it takes
  it out again: the list is the one from before, and a second unregistering is refused with \<^verbatim>\<open>EINVAL\<close>.
\<close>

theorem register_unregister:
  assumes "registered s xs" and "File_systems_lock \<notin> held s" and "fs_fresh fs s"
  shows "\<exists>s1 s2. register_filesystem fs s = Some (0, s1) \<and> registered s1 (xs @ [fs]) \<and>
    unregister_filesystem fs s1 = Some (0, s2) \<and> registered s2 xs \<and>
    unregister_filesystem fs s2 = Some (- EINVAL, s2)"
proof -
  obtain s1 s2 where s: "register_filesystem fs s = Some (0, s1)" "registered s1 (xs @ [fs])"
      "File_systems_lock \<notin> held s1" "unregister_filesystem fs s1 = Some (0, s2)" "registered s2 xs"
    using fs_registry.insert_remove [OF assms] by blast
  obtain s3 where "unregister_filesystem fs s1 = Some (0, s3)" "unregister_filesystem fs s3 = Some (- EINVAL, s3)"
    using fs_registry.remove_twice [OF s(2,3)] by auto
  with s show ?thesis by auto
qed

theorem register_unregister_witness:
  "\<exists>s1 s2. register_filesystem 5 boot = Some (0, s1) \<and> registered s1 [5] \<and>
    unregister_filesystem 5 s1 = Some (0, s2) \<and> registered s2 [] \<and>
    unregister_filesystem 5 s2 = Some (- EINVAL, s2)"
  using register_unregister [OF boot_types(1) _ boot_types(2)] by (simp add: boot_def)

section \<open>Walks over the dentry tree\<close>

text \<open>
  C14. \<^verbatim>\<open>is_subdir\<close> always returns on a dentry cache whose parents lead up without a cycle, and says whether the second
  dentry is the first one or one of its ancestors.
\<close>

theorem is_subdir_decides:
  assumes "dcache_wf s" and "ranked s rk" and "dentries s new_dentry = Some d"
  shows "is_subdir new_dentry old_dentry s = Some ((parent_step s)\<^sup>*\<^sup>* new_dentry old_dentry)"
  by (rule is_subdir_ancestor [OF assms])

theorem is_subdir_decides_witness: "is_subdir 71 70 two_dentries = Some True"
  using is_subdir_decides [OF two_dentries_wf two_dentries_ranked two_dentries_at(2), of 70]
    r_into_rtranclp [of "parent_step two_dentries" 71 70] by (simp add: two_dentries_step)

text \<open>
  C13. \<^verbatim>\<open>have_submounts\<close>, which walks a subtree with one pointer and no stack, always returns, changes nothing and
  releases its lock; its answer is whether something is mounted on the dentry or anywhere below it.
\<close>

theorem have_submounts_decides:
  assumes "dcache_wf s" and "held s = {}" and "ranked s rk" and "dentries s p = Some d"
  shows "have_submounts p s = Some (\<exists>x. (parent_step s)\<^sup>*\<^sup>* x p \<and> mounted_at s x, s)"
  by (rule have_submounts_ok [OF assms])

theorem have_submounts_decides_witness: "have_submounts 70 two_dentries = Some (False, two_dentries)"
proof -
  have "\<not> mounted_at two_dentries x" for x
    by (auto simp: mounted_at_def two_dentries_def root_dentry_def d_mountpoint_def split: if_splits)
  then show ?thesis
    using have_submounts_decides [OF two_dentries_wf two_dentries_at(1) two_dentries_ranked two_dentries_at(3)] by simp
qed

text \<open>
  C12. \<^verbatim>\<open>d_genocide\<close> always returns. It takes exactly one reference from every dentry below the given one that is
  hashed and positive together with all dentries on the way down to it, and none from the others.
\<close>

theorem d_genocide_drops:
  assumes "dcache_wf s" and "held s = {}" and "ranked s rk" and "dentries s p = Some d"
  shows "d_genocide p s = Some (dec_by (\<lambda>x. of_bool ((live_step s)\<^sup>+\<^sup>+ x p)) s)"
  by (rule d_genocide_ok [OF assms])

theorem d_genocide_drops_witness:
  "\<exists>(s :: aufs) d. dentries s 100 = Some d \<and> d_count d = 2 \<and> d_genocide 70 s = Some (dec_by (\<lambda>x. of_bool ((live_step s)\<^sup>+\<^sup>+ x 70)) s) \<and>
     (live_step s)\<^sup>+\<^sup>+ 100 70"
proof -
  have l: "aufs_live 70 mounted" by (rule mounted_live(1))
  then have r: "dir_at mounted 70" "dcache_wf mounted" by (simp_all add: aufs_live_def)
  have n: "next_addr mounted = 100" by (simp add: mounted_def mount_fixed_def boot_def)
  have c: "plain_name ''jw''" "length ''jw'' \<le> 255" "creatable 0x8124"
    by (simp_all add: plain_name_def creatable_def file_or_dir_def by_name_mode_def)
  obtain s where s: "aufs_live 70 s" "created 70 ''jw'' 0x8124 0 None mounted s"
    by (rule create_step [OF l r(1) c(1,2) mounted_live(2) c(3)])
  then obtain q where "dcache_wf s" "held s = {}" "dentries s 70 = Some q" by (auto simp: aufs_live_def dir_at_def)
  note d_genocide_drops [OF this(1,2) created_ranked [OF r(2) s(2) mounted_ranked] this(3)]
  moreover have "(live_step s)\<^sup>+\<^sup>+ 100 70" using created_entered(1) [OF r(2) s(2)] n by (auto intro: tranclp.r_into_trancl)
  ultimately show ?thesis using created_entered(2) [OF r(2) s(2)] n by auto
qed

text \<open>
  C16. An entry of aufs outlives its file system: \<^verbatim>\<open>aufs_create_file\<close> leaves two references on the dentry it makes,
  and the \<^verbatim>\<open>d_genocide\<close> of \<^verbatim>\<open>kill_litter_super\<close> drops one, so that the dentry still counts as used afterwards.
\<close>

theorem aufs_entry_stays_pinned:
  assumes "aufs_live root s" and "ranked s rk" and "plain_name nm" "length nm \<le> 255" and "\<And>c. \<not> child_of s root nm c"
    and "creatable mode"
  shows "\<exists>s1 s2 d. aufs_create_file nm mode root 0 fops s = Some (next_addr s, s1) \<and> d_genocide root s1 = Some s2 \<and>
    dentries s2 (next_addr s) = Some d \<and> d_count d = 1"
  by (rule entry_pinned [OF assms])

theorem aufs_entry_stays_pinned_witness:
  "\<exists>s1 s2 d. aufs_create_file ''jw'' 0x8124 70 0 (Some Aufs_file_operations) mounted = Some (next_addr mounted, s1) \<and>
    d_genocide 70 s1 = Some s2 \<and> dentries s2 (next_addr mounted) = Some d \<and> d_count d = 1"
  by (rule aufs_entry_stays_pinned [OF mounted_live(1) mounted_ranked _ _ mounted_live(2)])
    (simp_all add: plain_name_def creatable_def file_or_dir_def by_name_mode_def)

section \<open>Inodes of aufs and inode numbers\<close>

text \<open>
  C20. The operations of a new inode fit its mode: directories, and only they, get the operations of a directory and
  the second link, devices, pipes and sockets the operations for their kind, and the device number goes to devices
  only. The inode cache stays well-formed.
\<close>

theorem aufs_get_inode_typed:
  assumes "icache_wf s" and "held s = {}" and "mem_ok s (next_addr s)" and "supers s sb = Some b"
  shows "\<exists>s' i. aufs_get_inode sb mode dev s = Some (next_addr s, s') \<and> icache_wf s' \<and> inodes s' = (inodes s)(next_addr s \<mapsto> i) \<and>
    i_sb i = sb \<and> i_count i = 1 \<and> i_mode i = ucast mode \<and> i_nlink i = (if S_ISDIR (i_mode i) then 2 else 1) \<and>
    i_op i = (if S_ISDIR (i_mode i) then Simple_dir_inode_operations else Empty_iops) \<and>
    i_fop i = (if S_ISDIR (i_mode i) then Simple_dir_operations else if S_ISCHR (i_mode i) then Def_chr_fops
      else if S_ISBLK (i_mode i) then Def_blk_fops else if S_ISFIFO (i_mode i) then Def_fifo_fops
      else if S_ISSOCK (i_mode i) then Bad_sock_fops else Empty_fops) \<and>
    i_rdev i = (if S_ISCHR (i_mode i) \<or> S_ISBLK (i_mode i) then dev else 0)"
  by (rule aufs_get_inode_kinds [OF assms])

theorem aufs_get_inode_typed_witness:
  "\<exists>s' i. aufs_get_inode 50 0x21B6 0x103 mounted = Some (next_addr mounted, s') \<and> inodes s' (next_addr mounted) = Some i \<and>
     i_fop i = Def_chr_fops \<and> i_rdev i = 0x103 \<and> i_nlink i = 1"
proof -
  obtain s' i where "aufs_get_inode 50 0x21B6 0x103 mounted = Some (next_addr mounted, s')"
    "inodes s' = (inodes mounted)(next_addr mounted \<mapsto> i)" "i_mode i = 0x21B6"
    "i_fop i = (if S_ISDIR (i_mode i) then Simple_dir_operations else if S_ISCHR (i_mode i) then Def_chr_fops
      else if S_ISBLK (i_mode i) then Def_blk_fops else if S_ISFIFO (i_mode i) then Def_fifo_fops
      else if S_ISSOCK (i_mode i) then Bad_sock_fops else Empty_fops)"
    "i_rdev i = (if S_ISCHR (i_mode i) \<or> S_ISBLK (i_mode i) then 0x103 else 0)"
    "i_nlink i = (if S_ISDIR (i_mode i) then 2 else 1)"
    using aufs_get_inode_typed [OF dcache_wfD(1) [OF mounted_root(1)] mounted_root(2,7,5), of "0x21B6" "0x103"] by auto
  then show ?thesis by (simp add: S_ISDIR_def S_ISCHR_def)
qed

text \<open>
  C15. The loop of \<^verbatim>\<open>iunique\<close> ends whenever some number above the reserved ones is free on the superblock, however
  many are taken and wherever the 64-bit counter stands, wrapping around included. The number it returns is free and
  not reserved, and only the counter changes.
\<close>

theorem iunique_finds:
  assumes "icache_wf s" and "Inode_lock \<notin> held s" and "ino_free sb f s" and "m < f"
  shows "\<exists>r. iunique sb m s = Some (r, s\<lparr>iunique_counter := r + 1\<rparr>) \<and> m < r \<and> ino_free sb r s"
  by (rule iunique_returns [OF assms])

theorem iunique_finds_witness:
  "\<exists>r. iunique 50 7 one_inode = Some (r, one_inode\<lparr>iunique_counter := r + 1\<rparr>) \<and> 7 < r \<and> ino_free 50 r one_inode"
proof (rule iunique_finds [OF one_inode_wf, where f = 8])
  show "Inode_lock \<notin> held one_inode" by (simp add: one_inode_def boot_def)
  show "ino_free 50 8 one_inode" by (simp add: ino_free_def one_inode_def boot_def)
qed simp

section \<open>Mounting\<close>





text \<open>
  C22. A mount attached at a dentry is what \<^verbatim>\<open>lookup_mnt\<close> finds there, with one reference more, and detaching it gives the
  place back and undoes the links: the hash table, the list of the parent and the count of mounts on the dentry are
  the ones from before, while the references to the parent and the dentry pass to the caller.
\<close>

theorem attach_lookup_detach:
  assumes "held s = {}" and "mounts s mnt = Some m" and "mounts s pm = Some p" "pm \<noteq> 0" "mnt \<noteq> pm" "mnt \<noteq> 0"
    and "dentries s dd = Some d" "dd \<noteq> 0" "d_count d \<noteq> 0"
    and "\<And>b. mnt \<notin> set (mount_hashtable s b)" "mnt \<notin> set (mnt_mounts p)"
  shows "\<exists>s1 s2 s3. attach_mnt mnt (pm, dd) s = Some s1 \<and> lookup_mnt pm dd s1 = Some (mnt, s2) \<and>
    detach_mnt mnt s1 = Some ((pm, dd), s3) \<and> mount_hashtable s3 = mount_hashtable s \<and>
    dentries s3 = (dentries s)(dd \<mapsto> d\<lparr>d_count := d_count d + 1\<rparr>) \<and>
    mounts s3 = (mounts s)(mnt \<mapsto> m\<lparr>mnt_parent := mnt, mnt_mountpoint := mnt_root m\<rparr>, pm \<mapsto> p\<lparr>mnt_count := mnt_count p + 1\<rparr>)"
  using attach_mnt_ok [OF assms(2-5,7-9)] lookup_mnt_attached [OF assms(1,2,6,5) refl, of dd p d]
    detach_mnt_attached [OF assms(2,3,5,7,10,11)] by blast

theorem attach_lookup_detach_witness:
  "\<exists>m s1 s2. attach_mnt 81 (80, 70) (mounted\<lparr>mounts := (mounts mounted)(81 \<mapsto> m)\<rparr>) = Some s1 \<and> lookup_mnt 80 70 s1 = Some (81, s2)"
proof -
  let ?s = "mounted\<lparr>mounts := (mounts mounted)(81 \<mapsto> new_mnt ''none'')\<rparr>"
  obtain p where p: "mounts ?s 80 = Some p" "mnt_mounts p = []" by (simp add: mounted_def mount_fixed_def)
  have d: "held ?s = {}" "dentries ?s 70 = Some (root_dentry\<lparr>d_count := 1, d_subdirs := []\<rparr>)" "\<And>b. 81 \<notin> set (mount_hashtable ?s b)"
    using mounted_root(2,3) by (simp_all add: mounted_def mount_fixed_def boot_def)
  have m: "mounts ?s 81 = Some (new_mnt ''none'')" by simp
  show ?thesis using attach_lookup_detach [OF d(1) m p(1) _ _ _ d(2) _ _ d(3)] p(2) by auto
qed

section \<open>Directories\<close>



text \<open>
  C26. A directory that still holds a name of an inode can neither be removed nor be replaced by a rename: both give
  \<^verbatim>\<open>ENOTEMPTY\<close> and change nothing.
\<close>

theorem occupied_directory_stays:
  assumes "dcache_wf s" and "held s = {}" and "dentries s p = Some d" "d_parent d = p \<Longrightarrow> d_unhashed d"
    and "child_of s p nm c" "dentries s c = Some e" "d_inode e \<noteq> 0"
    and "dentries s old = Some od" "inodes s (d_inode od) = Some oi"
  shows "simple_rmdir dir p s = Some (- ENOTEMPTY, s) \<and> simple_rename old_dir old dir p s = Some (- ENOTEMPTY, s)"
  using simple_rmdir_occupied [OF assms(1-7)] assms(8,9) by blast

theorem occupied_directory_stays_witness: "simple_rmdir 60 70 with_file = Some (- ENOTEMPTY, with_file)"
proof -
  obtain q where q: "dentries with_file 70 = Some q" "d_inode q = 60" "d_unhashed q" "d_parent q = 70" using with_file_at(4) by blast
  obtain i where i: "inodes with_file (d_inode q) = Some i" using with_file_at(5) q(2) by auto
  obtain d where d: "dentries with_file 100 = Some d" "d_inode d \<noteq> 0" using with_file_at(3) by auto
  have w: "dcache_wf with_file" "held with_file = {}" using with_file_at(1) by (simp_all add: aufs_live_def)
  show ?thesis using occupied_directory_stays [OF w q(1) q(3) with_file_at(2) d q(1) i] by simp
qed

text \<open>
  C25. A hard link succeeds and makes the new name one more alias of the inode, which then has one link and one
  reference more; the invariant of the caches holds.
\<close>

theorem simple_link_adds:
  assumes "dcache_wf s" and "held s = {}" and "dentries s old = Some od" "inodes s (d_inode od) = Some i"
    and "inodes s dir = Some di" "dir \<noteq> d_inode od" and "dentries s p = Some d" "d_inode d = 0" "d_count d \<noteq> 0"
  shows "\<exists>s'. simple_link old dir p s = Some (0, s') \<and> dcache_wf s' \<and> held s' = {} \<and>
    dentries s' = (dentries s)(p \<mapsto> d\<lparr>d_inode := d_inode od, d_count := d_count d + 1\<rparr>) \<and>
    inodes s' = (inodes s)(dir \<mapsto> di\<lparr>i_mtime := cur_time s, i_ctime := cur_time s\<rparr>,
      d_inode od \<mapsto> i\<lparr>i_ctime := cur_time s, i_nlink := i_nlink i + 1, i_count := i_count i + 1, i_dentry := p # i_dentry i\<rparr>)"
  by (rule simple_link_ok [OF assms])

theorem simple_link_adds_witness:
  "\<exists>s' i. simple_link 72 60 71 three_dentries = Some (0, s') \<and> dcache_wf s' \<and> inodes s' 61 = Some i \<and> i_nlink i = 2 \<and> i_dentry i = [71, 72]"
proof -
  have "held three_dentries = {}" "dentries three_dentries 72 = Some (root_dentry\<lparr>d_count := 1, d_inode := 61, d_subdirs := []\<rparr>)"
    "inodes three_dentries (d_inode (root_dentry\<lparr>d_count := 1, d_inode := 61, d_subdirs := []\<rparr>)) =
      Some (slab_inode\<lparr>i_sb := 50, i_count := 1, i_nlink := 1, i_dentry := [72]\<rparr>)"
    "inodes three_dentries 60 = Some (slab_inode\<lparr>i_sb := 50, i_count := 1, i_nlink := 1, i_dentry := [70]\<rparr>)"
    "60 \<noteq> d_inode (root_dentry\<lparr>d_count := 1, d_inode := 61, d_subdirs := []\<rparr>)"
    "dentries three_dentries 71 = Some (root_dentry\<lparr>d_count := 1, d_inode := 0, d_subdirs := []\<rparr>)"
    "d_inode (root_dentry\<lparr>d_count := 1, d_inode := 0, d_subdirs := []\<rparr>) = 0" "d_count (root_dentry\<lparr>d_count := 1, d_inode := 0, d_subdirs := []\<rparr>) \<noteq> 0"
    by (simp_all add: three_dentries_def two_dentries_def one_inode_def boot_def)
  from simple_link_adds [OF three_dentries_wf this] show ?thesis by auto
qed



section \<open>Writers, types by number, times\<close>



text \<open>
  C32. The two directions of the system call \<^verbatim>\<open>sysfs\<close> are inverse: the number of a registered name is the index under
  which exactly this name, with the zero byte that ends it, is copied to the caller.
\<close>

theorem fs_name_of_index:
  assumes "registered s xs" and "File_systems_lock \<notin> held s" and "k < length xs" "length xs \<le> 2 ^ 32"
    and "fstypes s (xs ! k) = Some t" "fs_owner t = 0" and "user_ok buf (Suc (length (fs_name t))) s"
  shows "fs_index (fs_name t) s = Some (int k, s) \<and> (\<exists>m. fs_name_sys (of_nat k) buf s = Some (0, s\<lparr>umem := m\<rparr>) \<and>
    user_string buf (Suc (length (fs_name t))) (s\<lparr>umem := m\<rparr>) = fs_name t @ [CHR 0x00])"
  using fs_index_nth [OF assms(1-3)] fs_name_nth [OF assms] assms(5) by (simp add: fs_named_def)

theorem fs_name_of_index_witness:
  "\<exists>m. fs_name_sys 0 1000 (mounted\<lparr>file_systems := 5\<rparr>) = Some (0, mounted\<lparr>file_systems := 5, umem := m\<rparr>) \<and>
    user_string 1000 (Suc (length ''aufs'')) (mounted\<lparr>file_systems := 5, umem := m\<rparr>) = ''aufs'' @ [CHR 0x00]"
proof -
  let ?s = "mounted\<lparr>file_systems := 5\<rparr>"
  have r: "registered ?s [5]" by (simp add: registered_def fs_links_def aufs_type_def mounted_def mount_fixed_def boot_def)
  have "File_systems_lock \<notin> held ?s" "fstypes ?s ([5] ! 0) = Some aufs_type" "fs_owner aufs_type = 0" "user_ok 1000 (Suc (length (fs_name aufs_type))) ?s"
    by (auto simp: mounted_def mount_fixed_def boot_def aufs_type_def user_ok_def)
  from fs_name_of_index [OF r this(1) _ _ this(2-4)] show ?thesis by (auto simp: aufs_type_def)
qed

text \<open>
  C36. Truncating a time to the granularity of a file system keeps the seconds, never moves the time forward, loses
  less than one granule, and above the length of a jiffy gives a whole number of granules.
\<close>

theorem timespec_trunc_within:
  assumes "0 \<le> snd t" "snd t < 1000000000" and "0 < gran" "gran \<le> 1000000000"
  shows "fst (timespec_trunc t gran) = fst t \<and> 0 \<le> snd (timespec_trunc t gran) \<and> snd (timespec_trunc t gran) \<le> snd t \<and>
    snd t - snd (timespec_trunc t gran) < uint gran \<and> (jiffy_nsecs < gran \<longrightarrow> uint gran dvd snd (timespec_trunc t gran))"
  using timespec_trunc_bounds [OF assms] by blast

theorem timespec_trunc_within_witness:
  "timespec_trunc (7, 123456789) 10000000 = (7, 120000000) \<and> 123456789 - 120000000 < uint (10000000 :: 32 word)"
  using timespec_trunc_within [of "(7, 123456789)" 10000000] by (simp add: timespec_trunc_def jiffy_nsecs_def)

section \<open>Sequences of operations\<close>



end
